theory Spec2Isabelle
  imports Main "HOL-Library.Word" "HOL-Library.Log_Nat"
begin

section \<open>The JSON value core of sql/json\_dom.cc\<close>

text \<open>
  A shallow embedding of the JSON DOM, the wrapper over DOM and binary values, the text
  parser's event handler, merging, comparison, hash keys and the in-place binary update
  of \<^verbatim>\<open>sql/json_dom.cc\<close>. Pointers to DOM nodes become the nodes themselves (a tree
  datatype; the parent back-pointer is the position in the tree), a null pointer is
  \<open>None\<close>, and \<^verbatim>\<open>new (std::nothrow)\<close> is taken to succeed: the branches marked
  \<^verbatim>\<open>purecov: inspected\<close> that only handle a failed allocation have no counterpart.
\<close>

subsection \<open>Bytes, strings and memcmp\<close>

type_synonym uchar = nat
type_synonym longlong = "64 word"
type_synonym ulonglong = "64 word"

text \<open>A \<^verbatim>\<open>std::string\<close> is a list of bytes; \<open>uchar_of\<close> reads one as \<^verbatim>\<open>unsigned char\<close>.\<close>

definition uchar_of :: "char \<Rightarrow> uchar" where
  "uchar_of c = of_char c"

text \<open>
  \<^verbatim>\<open>memcmp(s1, s2, n)\<close> of the C library on the first \<open>n\<close> bytes. The C standard fixes
  the sign of the result and nothing else: \<open>memcmp_sign\<close> is that sign, all that
  \<^verbatim>\<open>Json_key_comparator\<close> looks at. The value itself, which \<^verbatim>\<open>compare_json_strings\<close>
  hands on, is \<open>memcmp\<close> in the section on comparison. Callers never pass an \<open>n\<close> beyond
  either length (reading there would be out of bounds); the model stops with \<open>0\<close> there.
\<close>

fun memcmp_sign :: "string \<Rightarrow> string \<Rightarrow> nat \<Rightarrow> int" where
  "memcmp_sign (x # xs) (y # ys) (Suc n) =
     (if uchar_of x = uchar_of y then memcmp_sign xs ys n
      else if uchar_of x < uchar_of y then -1 else 1)"
| "memcmp_sign _ _ _ = 0"

subsection \<open>Object keys: Json\_key\_comparator and the std::map of members\<close>

text \<open>\<^verbatim>\<open>Json_key_comparator::operator()\<close>: shorter keys first, then byte order.\<close>

definition Json_key_comparator :: "string \<Rightarrow> string \<Rightarrow> bool" where
  "Json_key_comparator key1 key2 =
     (if length key1 \<noteq> length key2 then length key1 < length key2
      else memcmp_sign key1 key2 (length key1) < 0)"

text \<open>
  \<^verbatim>\<open>Json_object_map\<close> is a \<^verbatim>\<open>std::map\<close> ordered by the comparator: an association list
  kept strictly increasing in its keys. Two keys are the same key of the map when neither
  is less than the other.
\<close>

type_synonym 'v Json_object_map = "(string \<times> 'v) list"

definition key_equiv :: "string \<Rightarrow> string \<Rightarrow> bool" where
  "key_equiv k1 k2 = (\<not> Json_key_comparator k1 k2 \<and> \<not> Json_key_comparator k2 k1)"

definition map_sorted :: "'v Json_object_map \<Rightarrow> bool" where
  "map_sorted m = sorted_wrt Json_key_comparator (map fst m)"

text \<open>\<^verbatim>\<open>std::map::find\<close>: the member stored under the key, if any.\<close>

fun map_find :: "string \<Rightarrow> 'v Json_object_map \<Rightarrow> 'v option" where
  "map_find key [] = None"
| "map_find key ((k, v) # rest) = (if key_equiv key k then Some v else map_find key rest)"

text \<open>
  \<^verbatim>\<open>std::map::insert\<close>: the pair goes to its place in the order unless the key is
  already there; the flag is \<^verbatim>\<open>ret.second\<close>, true when the pair was inserted.
\<close>

fun map_insert :: "string \<Rightarrow> 'v \<Rightarrow> 'v Json_object_map \<Rightarrow> 'v Json_object_map \<times> bool" where
  "map_insert key value [] = ([(key, value)], True)"
| "map_insert key value ((k, v) # rest) =
     (if Json_key_comparator key k then ((key, value) # (k, v) # rest, True)
      else if Json_key_comparator k key then
        (case map_insert key value rest of (rest', inserted) \<Rightarrow> ((k, v) # rest', inserted))
      else ((k, v) # rest, False))"

text \<open>Assignment through the iterator \<^verbatim>\<open>find\<close> returned: \<^verbatim>\<open>this_iter->second= v\<close>.\<close>

fun map_assign :: "string \<Rightarrow> 'v \<Rightarrow> 'v Json_object_map \<Rightarrow> 'v Json_object_map" where
  "map_assign key value [] = []"
| "map_assign key value ((k, v) # rest) =
     (if key_equiv key k then (k, value) # rest else (k, v) # map_assign key value rest)"

subsection \<open>Scalar payloads\<close>

text \<open>
  \<^verbatim>\<open>enum_field_types\<close> is declared outside this file; the model uses the numeric codes
  of the four temporal types and of \<^verbatim>\<open>MYSQL_TYPE_NEWDECIMAL\<close>.
\<close>

type_synonym enum_field_types = nat

definition MYSQL_TYPE_TIMESTAMP :: enum_field_types where "MYSQL_TYPE_TIMESTAMP = 7"
definition MYSQL_TYPE_DATE :: enum_field_types where "MYSQL_TYPE_DATE = 10"
definition MYSQL_TYPE_TIME :: enum_field_types where "MYSQL_TYPE_TIME = 11"
definition MYSQL_TYPE_DATETIME :: enum_field_types where "MYSQL_TYPE_DATETIME = 12"
definition MYSQL_TYPE_NEWDECIMAL :: enum_field_types where "MYSQL_TYPE_NEWDECIMAL = 246"

text \<open>
  An IEEE 754 binary64 \<^verbatim>\<open>double\<close>, given by its three fields: the sign bit, the 11-bit
  biased exponent and the 52-bit fraction.
\<close>

datatype double = Double (sign_bit: bool) (biased_exponent: nat) (fraction: nat)

text \<open>
  Modelled from the spec: \<^verbatim>\<open>my_decimal\<close> is declared outside this file. The spec (section 3)
  makes DECIMAL an arbitrary-precision fixed-point number with a precision and a scale:
  a sign, the digits as a natural number, and the number of digits after the point.
\<close>

datatype my_decimal = My_decimal (dec_sign: bool) (dec_digits: nat) (dec_frac: nat)

subsection \<open>The DOM\<close>

datatype enum_json_type =
  J_NULL | J_DECIMAL | J_INT | J_UINT | J_DOUBLE | J_STRING | J_OBJECT | J_ARRAY
  | J_BOOLEAN | J_DATE | J_TIME | J_DATETIME | J_TIMESTAMP | J_OPAQUE | J_ERROR

text \<open>
  One constructor per concrete \<^verbatim>\<open>Json_dom\<close> class. A \<^verbatim>\<open>Json_datetime\<close> holds its
  \<^verbatim>\<open>MYSQL_TIME\<close> as the packed 64-bit value \<^verbatim>\<open>TIME_to_longlong_packed\<close> gives (the
  packing routine is outside this file; the spec, section 3, has each temporal kind carry
  a packed temporal value), and its field type.
\<close>

datatype Json_dom =
  Json_null
  | Json_boolean bool
  | Json_int longlong
  | Json_uint ulonglong
  | Json_double double
  | Json_decimal my_decimal
  | Json_string string
  | Json_opaque enum_field_types string
  | Json_datetime longlong enum_field_types
  | Json_array "Json_dom list"
  | Json_object "(string \<times> Json_dom) list"

text \<open>
  \<^verbatim>\<open>json_type()\<close> of each class; \<^verbatim>\<open>Json_datetime::json_type\<close> switches on the field
  type and, past a failed assertion, answers \<^verbatim>\<open>J_NULL\<close> for any other.
\<close>

fun json_type :: "Json_dom \<Rightarrow> enum_json_type" where
  "json_type Json_null = J_NULL"
| "json_type (Json_boolean _) = J_BOOLEAN"
| "json_type (Json_int _) = J_INT"
| "json_type (Json_uint _) = J_UINT"
| "json_type (Json_double _) = J_DOUBLE"
| "json_type (Json_decimal _) = J_DECIMAL"
| "json_type (Json_string _) = J_STRING"
| "json_type (Json_opaque _ _) = J_OPAQUE"
| "json_type (Json_datetime _ m_field_type) =
     (if m_field_type = MYSQL_TYPE_TIME then J_TIME
      else if m_field_type = MYSQL_TYPE_DATETIME then J_DATETIME
      else if m_field_type = MYSQL_TYPE_DATE then J_DATE
      else if m_field_type = MYSQL_TYPE_TIMESTAMP then J_TIMESTAMP
      else J_NULL)"
| "json_type (Json_array _) = J_ARRAY"
| "json_type (Json_object _) = J_OBJECT"

text \<open>
  \<^verbatim>\<open>down_cast\<close> to \<^verbatim>\<open>Json_array\<close> or \<^verbatim>\<open>Json_object\<close> and reading the container. The
  source casts only after it has seen the type; on anything else the model gives the
  empty container.
\<close>

fun m_v :: "Json_dom \<Rightarrow> Json_dom list" where
  "m_v (Json_array v) = v"
| "m_v _ = []"

fun m_map :: "Json_dom \<Rightarrow> Json_dom Json_object_map" where
  "m_map (Json_object m) = m"
| "m_map _ = []"

text \<open>\<^verbatim>\<open>depth()\<close>: 1 for a scalar, one more than the deepest child for a container.\<close>

fun Json_dom_depth :: "Json_dom \<Rightarrow> nat" where
  "Json_dom_depth (Json_array v) = 1 + fold max (map Json_dom_depth v) 0"
| "Json_dom_depth (Json_object m) = 1 + fold max (map (\<lambda>kv. Json_dom_depth (snd kv)) m) 0"
| "Json_dom_depth _ = 1"

subsection \<open>Json\_array and Json\_object operations\<close>

text \<open>
  The mutators return the error flag of the source (\<open>True\<close> is failure) and the container
  after the call. A null \<^verbatim>\<open>value\<close> is \<open>None\<close>.
\<close>

definition Json_array_insert_alias ::
    "Json_dom list \<Rightarrow> nat \<Rightarrow> Json_dom option \<Rightarrow> bool \<times> Json_dom list" where
  "Json_array_insert_alias this index value =
     (case value of
        None \<Rightarrow> (True, this)
      | Some v \<Rightarrow>
          (let pos = min (length this) index
           in (False, take pos this @ v # drop pos this)))"

definition Json_array_append_alias :: "Json_dom list \<Rightarrow> Json_dom option \<Rightarrow> bool \<times> Json_dom list" where
  "Json_array_append_alias this value = Json_array_insert_alias this (length this) value"

text \<open>\<^verbatim>\<open>Json_array::consume\<close>: append every element of \<open>other\<close>, stopping at a failure.\<close>

fun Json_array_consume :: "Json_dom list \<Rightarrow> Json_dom list \<Rightarrow> bool \<times> Json_dom list" where
  "Json_array_consume this [] = (False, this)"
| "Json_array_consume this (x # other) =
     (case Json_array_append_alias this (Some x) of
        (True, this') \<Rightarrow> (True, this')
      | (False, this') \<Rightarrow> Json_array_consume this' other)"

text \<open>
  \<^verbatim>\<open>Json_object::add_alias\<close>: a null value is an error; otherwise the pair is inserted
  into the map, the result of the insertion is not reported, and the call succeeds.
\<close>

definition Json_object_add_alias ::
    "Json_dom Json_object_map \<Rightarrow> string \<Rightarrow> Json_dom option \<Rightarrow> bool \<times> Json_dom Json_object_map" where
  "Json_object_add_alias this key value =
     (case value of
        None \<Rightarrow> (True, this)
      | Some v \<Rightarrow> (case map_insert key v this of (m, inserted) \<Rightarrow> (False, m)))"

definition Json_object_get :: "Json_dom Json_object_map \<Rightarrow> string \<Rightarrow> Json_dom option" where
  "Json_object_get this key = map_find key this"

subsection \<open>Merging\<close>

definition wrap_in_array :: "Json_dom \<Rightarrow> Json_dom" where
  "wrap_in_array innards = Json_array (snd (Json_array_append_alias [] (Some innards)))"

definition make_mergeable :: "Json_dom \<Rightarrow> Json_dom" where
  "make_mergeable candidate =
     (case json_type candidate of
        J_ARRAY \<Rightarrow> candidate
      | J_OBJECT \<Rightarrow> candidate
      | _ \<Rightarrow> wrap_in_array candidate)"

text \<open>
  \<^verbatim>\<open>merge_doms\<close> and \<^verbatim>\<open>Json_object::consume\<close> call each other. \<open>None\<close> is the null
  pointer \<^verbatim>\<open>merge_doms\<close> returns when a consume fails; \<^verbatim>\<open>consume\<close> returns its error
  flag and the receiving map.
\<close>

function merge_doms :: "Json_dom \<Rightarrow> Json_dom \<Rightarrow> Json_dom option"
  and Json_object_consume ::
    "Json_dom Json_object_map \<Rightarrow> Json_dom Json_object_map \<Rightarrow> bool \<times> Json_dom Json_object_map"
where
  "merge_doms left right =
     (let left1 = make_mergeable left;
          right1 = make_mergeable right;
          left_is_array = (json_type left1 = J_ARRAY);
          right_is_array = (json_type right1 = J_ARRAY)
      in if left_is_array \<or> right_is_array then
           (let left2 = (if \<not> left_is_array then wrap_in_array left1 else left1);
                right2 = (if \<not> right_is_array then wrap_in_array right1 else right1)
            in case Json_array_consume (m_v left2) (m_v right2) of
                 (True, _) \<Rightarrow> None
               | (False, v) \<Rightarrow> Some (Json_array v))
         else
           (case Json_object_consume (m_map left1) (m_map right1) of
              (True, _) \<Rightarrow> None
            | (False, m) \<Rightarrow> Some (Json_object m)))"
| "Json_object_consume this_map [] = (False, this_map)"
| "Json_object_consume this_map ((key, value) # other_map) =
     (case map_find key this_map of
        None \<Rightarrow>
          (case Json_object_add_alias this_map key (Some value) of
             (True, m) \<Rightarrow> (True, m)
           | (False, m) \<Rightarrow> Json_object_consume m other_map)
      | Some this_value \<Rightarrow>
          (case merge_doms this_value value of
             None \<Rightarrow> (True, this_map)
           | Some merged \<Rightarrow> Json_object_consume (map_assign key merged this_map) other_map))"
  by pat_completeness auto

termination merge_doms
proof (relation "measure (\<lambda>x. case x of
          Inl (left, right) \<Rightarrow> size right
        | Inr (this_map, other_map) \<Rightarrow> size_list (\<lambda>kv. size (snd kv)) other_map)",
       goal_cases)
  case 1
  show ?case by simp
next
  case (2 left right left1 right1 left_is_array right_is_array)
  have "size_list (\<lambda>kv. size (snd kv)) (m_map (make_mergeable right)) < size right"
    if "json_type (make_mergeable right) \<noteq> J_ARRAY"
  proof (cases right)
    case (Json_object m)
    have "size_list (\<lambda>kv. size (snd kv)) m \<le> size_list (size_prod (\<lambda>_. 0) size) m"
      by (induction m) auto
    with Json_object show ?thesis by (simp add: make_mergeable_def)
  qed (use that in \<open>simp_all add: make_mergeable_def wrap_in_array_def
        Json_array_append_alias_def Json_array_insert_alias_def split: if_splits\<close>)
  with 2 show ?case by simp
next
  case 3
  then show ?case by simp
next
  case 4
  then show ?case by simp
next
  case 5
  then show ?case by simp
qed

declare merge_doms.simps [simp del]

text \<open>
  The array a side of a merge stands for in the spec's \<^verbatim>\<open>[...L] ++ [...R]\<close>: the elements
  of an array, and the value itself, as the only element, for anything else.
\<close>

definition spread :: "Json_dom \<Rightarrow> Json_dom list" where
  "spread x = (case x of Json_array v \<Rightarrow> v | _ \<Rightarrow> [x])"

subsection \<open>Binary values\<close>

text \<open>
  Modelled from the spec: \<^verbatim>\<open>json_binary::Value\<close> and its member functions are declared
  and defined outside this file. The model follows the reader contract of the spec (section
  4.3): a value exposes its type, for a container the element count, the elements and (for
  an object) the keys, lookup of a key, the scalar payloads, and the slice of bytes it
  borrows. A container is the decoded view of its slice: \<open>m_data\<close> is the position of the
  slice in the document and its bytes, \<open>m_large\<close> the encoding width, and the members or
  elements are what \<^verbatim>\<open>key(i)\<close> and \<^verbatim>\<open>element(i)\<close> read from it.
\<close>

text \<open>\<^verbatim>\<open>Value::INT\<close> is written \<open>INT'\<close>: \<open>INT\<close> is taken by the notation of HOL.\<close>

datatype enum_type =
  OBJECT | ARRAY | STRING | INT' | UINT | DOUBLE
  | LITERAL_NULL | LITERAL_TRUE | LITERAL_FALSE | OPAQUE | ERROR

type_synonym slice = "nat \<times> uchar list"

datatype Value =
  Value_object slice bool "(string \<times> Value) list"
  | Value_array slice bool "Value list"
  | Value_string string
  | Value_int longlong
  | Value_uint ulonglong
  | Value_double double
  | Value_literal_null
  | Value_literal_true
  | Value_literal_false
  | Value_opaque enum_field_types string
  | Value_error

fun Value_type :: "Value \<Rightarrow> enum_type" where
  "Value_type (Value_object _ _ _) = OBJECT"
| "Value_type (Value_array _ _ _) = ARRAY"
| "Value_type (Value_string _) = STRING"
| "Value_type (Value_int _) = INT'"
| "Value_type (Value_uint _) = UINT"
| "Value_type (Value_double _) = DOUBLE"
| "Value_type Value_literal_null = LITERAL_NULL"
| "Value_type Value_literal_true = LITERAL_TRUE"
| "Value_type Value_literal_false = LITERAL_FALSE"
| "Value_type (Value_opaque _ _) = OPAQUE"
| "Value_type Value_error = ERROR"

fun Value_members :: "Value \<Rightarrow> (string \<times> Value) list" where
  "Value_members (Value_object _ _ ms) = ms"
| "Value_members _ = []"

fun Value_elements :: "Value \<Rightarrow> Value list" where
  "Value_elements (Value_object _ _ ms) = map snd ms"
| "Value_elements (Value_array _ _ es) = es"
| "Value_elements _ = []"

definition Value_element_count :: "Value \<Rightarrow> nat" where
  "Value_element_count v = length (Value_elements v)"

text \<open>\<^verbatim>\<open>element(pos)\<close> and \<^verbatim>\<open>key(pos)\<close>; a position past the end gives an error value.\<close>

definition Value_element :: "Value \<Rightarrow> nat \<Rightarrow> Value" where
  "Value_element v pos = (if pos < Value_element_count v then Value_elements v ! pos else Value_error)"

definition Value_key :: "Value \<Rightarrow> nat \<Rightarrow> Value" where
  "Value_key v pos =
     (if pos < length (Value_members v) then Value_string (fst (Value_members v ! pos))
      else Value_error)"

text \<open>
  \<^verbatim>\<open>lookup_index(key)\<close>: the position of the member with that key, or the element count
  when there is none; \<^verbatim>\<open>lookup(key)\<close>: the member, or an error value.
\<close>

fun index_of_key :: "string \<Rightarrow> (string \<times> Value) list \<Rightarrow> nat" where
  "index_of_key k [] = 0"
| "index_of_key k ((k', v) # ms) = (if k = k' then 0 else Suc (index_of_key k ms))"

definition Value_lookup_index :: "Value \<Rightarrow> string \<Rightarrow> nat" where
  "Value_lookup_index v k = index_of_key k (Value_members v)"

definition Value_lookup :: "Value \<Rightarrow> string \<Rightarrow> Value" where
  "Value_lookup v k = Value_element v (Value_lookup_index v k)"

fun Value_large_format :: "Value \<Rightarrow> bool" where
  "Value_large_format (Value_object _ large _) = large"
| "Value_large_format (Value_array _ large _) = large"
| "Value_large_format _ = False"

fun Value_get_data :: "Value \<Rightarrow> string" where
  "Value_get_data (Value_string s) = s"
| "Value_get_data (Value_opaque _ s) = s"
| "Value_get_data _ = []"

definition Value_get_data_length :: "Value \<Rightarrow> nat" where
  "Value_get_data_length v = length (Value_get_data v)"

fun Value_field_type :: "Value \<Rightarrow> enum_field_types" where
  "Value_field_type (Value_opaque t _) = t"
| "Value_field_type _ = 0"

fun Value_get_int64 :: "Value \<Rightarrow> longlong" where
  "Value_get_int64 (Value_int i) = i"
| "Value_get_int64 _ = 0"

fun Value_get_uint64 :: "Value \<Rightarrow> ulonglong" where
  "Value_get_uint64 (Value_uint i) = i"
| "Value_get_uint64 _ = 0"

fun Value_get_double :: "Value \<Rightarrow> double" where
  "Value_get_double (Value_double d) = d"
| "Value_get_double _ = Double False 0 0"

text \<open>\<^verbatim>\<open>raw_binary\<close>: the bytes of the slice (of a container; a scalar has none here).\<close>

fun Value_raw_binary :: "Value \<Rightarrow> uchar list" where
  "Value_raw_binary (Value_object d _ _) = snd d"
| "Value_raw_binary (Value_array d _ _) = snd d"
| "Value_raw_binary _ = []"

subsection \<open>From a binary value to a DOM\<close>

text \<open>
  Modelled from the spec: \<^verbatim>\<open>binary2my_decimal\<close> and \<^verbatim>\<open>my_decimal_get_binary_size\<close>
  are outside this file. \<^verbatim>\<open>Json_decimal::convert_from_binary\<close> reads the precision and
  the scale from the first two bytes, each a plain \<^verbatim>\<open>char\<close> converted to \<^verbatim>\<open>int\<close> (so a
  byte above 127 is negative where \<^verbatim>\<open>char\<close> is signed), checks the size and decodes the
  rest. The parameter \<open>binary2my_decimal\<close> stands for the conversion of the two bytes, the
  size check and the decoding: it gets the two bytes as they are stored, and gives
  \<open>None\<close> when the size is wrong or decoding fails.
\<close>

definition convert_from_binary ::
    "(char \<Rightarrow> char \<Rightarrow> string \<Rightarrow> my_decimal option) \<Rightarrow> string \<Rightarrow> my_decimal option" where
  "convert_from_binary binary2my_decimal bin =
     (if length bin < 2 then None
      else binary2my_decimal (bin ! 0) (bin ! 1) (drop 2 bin))"

text \<open>\<^verbatim>\<open>sint8korr\<close>: eight little-endian bytes as a signed 64-bit integer.\<close>

definition sint8korr :: "string \<Rightarrow> longlong" where
  "sint8korr s = word_of_nat (foldr (\<lambda>c n. uchar_of c + 256 * n) (take 8 s) 0)"

text \<open>
  The session handle of the caller: what this file asks of it is
  \<^verbatim>\<open>check_stack_overrun\<close>, here a stack budget counted in nested containers.
\<close>

record THD =
  stack_budget :: nat

definition check_stack_overrun :: "THD \<Rightarrow> nat \<Rightarrow> bool" where
  "check_stack_overrun thd level = (stack_budget thd < level)"

text \<open>
  \<^verbatim>\<open>json_binary_to_dom_template\<close>: the scalar, or an empty container. \<open>None\<close> is the
  null pointer returned after \<^verbatim>\<open>ER_INVALID_JSON_BINARY_DATA\<close>.
\<close>

definition json_binary_to_dom_template ::
    "(char \<Rightarrow> char \<Rightarrow> string \<Rightarrow> my_decimal option) \<Rightarrow> Value \<Rightarrow> Json_dom option" where
  "json_binary_to_dom_template b2d v =
     (case Value_type v of
        OBJECT \<Rightarrow> Some (Json_object [])
      | ARRAY \<Rightarrow> Some (Json_array [])
      | DOUBLE \<Rightarrow> Some (Json_double (Value_get_double v))
      | INT' \<Rightarrow> Some (Json_int (Value_get_int64 v))
      | UINT \<Rightarrow> Some (Json_uint (Value_get_uint64 v))
      | LITERAL_FALSE \<Rightarrow> Some (Json_boolean False)
      | LITERAL_TRUE \<Rightarrow> Some (Json_boolean True)
      | LITERAL_NULL \<Rightarrow> Some Json_null
      | OPAQUE \<Rightarrow>
          (let ftyp = Value_field_type v
           in if ftyp = MYSQL_TYPE_NEWDECIMAL then
                (case convert_from_binary b2d (Value_get_data v) of
                   None \<Rightarrow> None
                 | Some m \<Rightarrow> Some (Json_decimal m))
              else if ftyp = MYSQL_TYPE_DATE \<or> ftyp = MYSQL_TYPE_TIME
                      \<or> ftyp = MYSQL_TYPE_DATETIME \<or> ftyp = MYSQL_TYPE_TIMESTAMP then
                Some (Json_datetime (sint8korr (Value_get_data v)) ftyp)
              else Some (Json_opaque (Value_field_type v) (Value_get_data v)))
      | STRING \<Rightarrow> Some (Json_string (Value_get_data v))
      | ERROR \<Rightarrow> None)"

text \<open>
  \<^verbatim>\<open>populate_object_or_array\<close>, \<^verbatim>\<open>populate_object\<close> and \<^verbatim>\<open>populate_array\<close>: the
  container template is filled member by member. The source adds each member's template
  to the container and then populates the template through the pointer; the model
  populates first and adds the finished member, which is the same tree. One case differs:
  \<^verbatim>\<open>add_alias\<close> deletes a template whose key is already in the object. For a scalar or
  an empty container nothing touches the deleted template again and the loop goes on. For
  a container with members, \<^verbatim>\<open>populate_object_or_array\<close> then adds the members to the
  deleted container: a use after free, \<open>None\<close> in the model (the stack check comes first
  and may still end the call with the error flag). Otherwise the functions give
  \<open>Some\<close> of the error flag and the populated DOM; \<open>level\<close> is the nesting at which the
  stack is checked.
\<close>

fun populate_object_or_array ::
    "(char \<Rightarrow> char \<Rightarrow> string \<Rightarrow> my_decimal option) \<Rightarrow> THD \<Rightarrow> nat \<Rightarrow> Json_dom \<Rightarrow> Value
       \<Rightarrow> (bool \<times> Json_dom) option"
  and populate_object ::
    "(char \<Rightarrow> char \<Rightarrow> string \<Rightarrow> my_decimal option) \<Rightarrow> THD \<Rightarrow> nat \<Rightarrow> Json_dom Json_object_map
       \<Rightarrow> (string \<times> Value) list \<Rightarrow> (bool \<times> Json_dom Json_object_map) option"
  and populate_array ::
    "(char \<Rightarrow> char \<Rightarrow> string \<Rightarrow> my_decimal option) \<Rightarrow> THD \<Rightarrow> nat \<Rightarrow> Json_dom list
       \<Rightarrow> Value list \<Rightarrow> (bool \<times> Json_dom list) option"
where
  "populate_object_or_array b2d thd level d (Value_object _ _ ms) =
     (if check_stack_overrun thd level then Some (True, d)
      else (case populate_object b2d thd level (m_map d) ms of
              None \<Rightarrow> None
            | Some (err, jo) \<Rightarrow> Some (err, Json_object jo)))"
| "populate_object_or_array b2d thd level d (Value_array _ _ es) =
     (if check_stack_overrun thd level then Some (True, d)
      else (case populate_array b2d thd level (m_v d) es of
              None \<Rightarrow> None
            | Some (err, ja) \<Rightarrow> Some (err, Json_array ja)))"
| "populate_object_or_array b2d thd level d (Value_string _) = Some (False, d)"
| "populate_object_or_array b2d thd level d (Value_int _) = Some (False, d)"
| "populate_object_or_array b2d thd level d (Value_uint _) = Some (False, d)"
| "populate_object_or_array b2d thd level d (Value_double _) = Some (False, d)"
| "populate_object_or_array b2d thd level d Value_literal_null = Some (False, d)"
| "populate_object_or_array b2d thd level d Value_literal_true = Some (False, d)"
| "populate_object_or_array b2d thd level d Value_literal_false = Some (False, d)"
| "populate_object_or_array b2d thd level d (Value_opaque _ _) = Some (False, d)"
| "populate_object_or_array b2d thd level d Value_error = Some (False, d)"
| "populate_object b2d thd level jo [] = Some (False, jo)"
| "populate_object b2d thd level jo ((k, val) # ms) =
     (case json_binary_to_dom_template b2d val of
        None \<Rightarrow> Some (True, jo)
      | Some d \<Rightarrow>
          if map_find k jo \<noteq> None then
            (if Value_type val = OBJECT \<or> Value_type val = ARRAY then
               (if check_stack_overrun thd (Suc level) then Some (True, jo)
                else if Value_element_count val \<noteq> 0 then None
                else populate_object b2d thd level jo ms)
             else populate_object b2d thd level jo ms)
          else
          (case populate_object_or_array b2d thd (Suc level) d val of
             None \<Rightarrow> None
           | Some (err, d') \<Rightarrow>
               (let jo' = snd (Json_object_add_alias jo k (Some d'))
                in if err then Some (True, jo') else populate_object b2d thd level jo' ms)))"
| "populate_array b2d thd level ja [] = Some (False, ja)"
| "populate_array b2d thd level ja (elt # es) =
     (case json_binary_to_dom_template b2d elt of
        None \<Rightarrow> Some (True, ja)
      | Some d \<Rightarrow>
          (case populate_object_or_array b2d thd (Suc level) d elt of
             None \<Rightarrow> None
           | Some (err, d') \<Rightarrow>
               (let ja' = snd (Json_array_append_alias ja (Some d'))
                in if err then Some (True, ja') else populate_array b2d thd level ja' es)))"

text \<open>
  \<^verbatim>\<open>Json_dom::parse(thd, v)\<close>: the DOM of a binary value, a null pointer, or the use
  after free of the loop above.
\<close>

datatype binary_parse = Parsed Json_dom | Null_pointer | Use_after_free

definition Json_dom_parse ::
    "(char \<Rightarrow> char \<Rightarrow> string \<Rightarrow> my_decimal option) \<Rightarrow> THD \<Rightarrow> Value \<Rightarrow> binary_parse" where
  "Json_dom_parse b2d thd v =
     (case json_binary_to_dom_template b2d v of
        None \<Rightarrow> Null_pointer
      | Some d \<Rightarrow>
          (case populate_object_or_array b2d thd 1 d v of
             None \<Rightarrow> Use_after_free
           | Some (True, _) \<Rightarrow> Null_pointer
           | Some (False, d') \<Rightarrow> Parsed d'))"

subsection \<open>Json\_wrapper\<close>

text \<open>
  The wrapper holds either a DOM pointer with its alias bit, or a binary value. The source
  keeps the two in a union; the record has both, and \<open>m_is_dom\<close> says which one counts.
\<close>

record Json_wrapper =
  m_is_dom :: bool
  m_dom_alias :: bool
  m_dom_value :: "Json_dom option"
  m_value :: Value

text \<open>\<^verbatim>\<open>Json_wrapper(Json_dom *dom_value)\<close>: a null pointer makes the wrapper an alias.\<close>

definition Json_wrapper_dom :: "Json_dom option \<Rightarrow> Json_wrapper" where
  "Json_wrapper_dom dom_value =
     \<lparr>m_is_dom = True,
      m_dom_alias = (if dom_value = None then True else False),
      m_dom_value = dom_value,
      m_value = Value_error\<rparr>"

text \<open>\<^verbatim>\<open>Json_wrapper(const json_binary::Value &value)\<close>.\<close>

definition Json_wrapper_binary :: "Value \<Rightarrow> Json_wrapper" where
  "Json_wrapper_binary v =
     \<lparr>m_is_dom = False, m_dom_alias = False, m_dom_value = None, m_value = v\<rparr>"

definition Json_wrapper_set_alias :: "Json_wrapper \<Rightarrow> Json_wrapper" where
  "Json_wrapper_set_alias w = w\<lparr>m_dom_alias := True\<rparr>"

text \<open>
  Modelled from the spec: \<^verbatim>\<open>Json_wrapper::empty()\<close> is defined in the header, outside
  this file. An empty wrapper is a wrapper over a null DOM pointer.
\<close>

definition Json_wrapper_empty :: "Json_wrapper \<Rightarrow> bool" where
  "Json_wrapper_empty w = (m_is_dom w \<and> m_dom_value w = None)"

definition bjson2json :: "enum_type \<Rightarrow> enum_json_type" where
  "bjson2json bintype =
     (case bintype of
        STRING \<Rightarrow> J_STRING
      | INT' \<Rightarrow> J_INT
      | UINT \<Rightarrow> J_UINT
      | DOUBLE \<Rightarrow> J_DOUBLE
      | LITERAL_TRUE \<Rightarrow> J_BOOLEAN
      | LITERAL_FALSE \<Rightarrow> J_BOOLEAN
      | LITERAL_NULL \<Rightarrow> J_NULL
      | ARRAY \<Rightarrow> J_ARRAY
      | OBJECT \<Rightarrow> J_OBJECT
      | ERROR \<Rightarrow> J_ERROR
      | OPAQUE \<Rightarrow> J_OPAQUE)"

text \<open>
  \<^verbatim>\<open>Json_wrapper::type()\<close>. In the DOM branch the pointer is not null, since the wrapper
  is not empty.
\<close>

definition Json_wrapper_type :: "Json_wrapper \<Rightarrow> enum_json_type" where
  "Json_wrapper_type w =
     (if Json_wrapper_empty w then J_ERROR
      else if m_is_dom w then
        (case m_dom_value w of Some d \<Rightarrow> json_type d | None \<Rightarrow> J_ERROR)
      else
        (let typ = Value_type (m_value w)
         in if typ = OPAQUE then
              (let ftyp = Value_field_type (m_value w)
               in if ftyp = MYSQL_TYPE_NEWDECIMAL then J_DECIMAL
                  else if ftyp = MYSQL_TYPE_DATETIME then J_DATETIME
                  else if ftyp = MYSQL_TYPE_DATE then J_DATE
                  else if ftyp = MYSQL_TYPE_TIME then J_TIME
                  else if ftyp = MYSQL_TYPE_TIMESTAMP then J_TIMESTAMP
                  else bjson2json typ)
            else bjson2json typ))"

text \<open>\<^verbatim>\<open>Json_wrapper::length()\<close>.\<close>

definition Json_wrapper_length :: "Json_wrapper \<Rightarrow> nat" where
  "Json_wrapper_length w =
     (if Json_wrapper_empty w then 0
      else if m_is_dom w then
        (case m_dom_value w of
           Some (Json_array v) \<Rightarrow> length v
         | Some (Json_object m) \<Rightarrow> length m
         | _ \<Rightarrow> 1)
      else
        (case Value_type (m_value w) of
           ARRAY \<Rightarrow> Value_element_count (m_value w)
         | OBJECT \<Rightarrow> Value_element_count (m_value w)
         | _ \<Rightarrow> 1))"

text \<open>
  \<^verbatim>\<open>Json_wrapper::depth(thd)\<close>. For a binary value the source builds the DOM and asks
  it; it does not test the pointer \<^verbatim>\<open>Json_dom::parse\<close> returns, so a failed parse is a
  null dereference: \<open>None\<close> here, as is the use after free of the parse.
\<close>

definition Json_wrapper_depth ::
    "(char \<Rightarrow> char \<Rightarrow> string \<Rightarrow> my_decimal option) \<Rightarrow> THD \<Rightarrow> Json_wrapper \<Rightarrow> nat option" where
  "Json_wrapper_depth b2d thd w =
     (if Json_wrapper_empty w then Some 0
      else if m_is_dom w then
        (case m_dom_value w of Some d \<Rightarrow> Some (Json_dom_depth d) | None \<Rightarrow> None)
      else
        (case Json_dom_parse b2d thd (m_value w) of
           Parsed d \<Rightarrow> Some (Json_dom_depth d)
         | Null_pointer \<Rightarrow> None
         | Use_after_free \<Rightarrow> None))"

text \<open>
  \<^verbatim>\<open>Json_wrapper::lookup(key)\<close> and \<^verbatim>\<open>operator[]\<close>. The source asserts the type
  before it casts; the DOM branch of the model reads the member map or the element vector
  of whatever is there. An index past the end of a DOM array reads outside the vector in
  the source; the model gives the empty wrapper there.
\<close>

definition Json_wrapper_lookup :: "Json_wrapper \<Rightarrow> string \<Rightarrow> Json_wrapper" where
  "Json_wrapper_lookup w k =
     (if m_is_dom w then
        (case m_dom_value w of
           Some d \<Rightarrow> Json_wrapper_set_alias (Json_wrapper_dom (Json_object_get (m_map d) k))
         | None \<Rightarrow> Json_wrapper_set_alias (Json_wrapper_dom None))
      else Json_wrapper_binary (Value_lookup (m_value w) k))"

definition Json_wrapper_index :: "Json_wrapper \<Rightarrow> nat \<Rightarrow> Json_wrapper" where
  "Json_wrapper_index w i =
     (if m_is_dom w then
        (case m_dom_value w of
           Some d \<Rightarrow>
             Json_wrapper_set_alias
               (Json_wrapper_dom (if i < length (m_v d) then Some (m_v d ! i) else None))
         | None \<Rightarrow> Json_wrapper_set_alias (Json_wrapper_dom None))
      else Json_wrapper_binary (Value_element (m_value w) i))"

text \<open>
  \<^verbatim>\<open>Json_wrapper_object_iterator\<close>: the members in the order of the iteration, each as
  its key and the wrapper \<^verbatim>\<open>elt()\<close> gives.
\<close>

definition object_iterator :: "Json_wrapper \<Rightarrow> (string \<times> Json_wrapper) list" where
  "object_iterator w =
     (if m_is_dom w then
        (case m_dom_value w of
           Some d \<Rightarrow>
             map (\<lambda>kv. (fst kv, Json_wrapper_set_alias (Json_wrapper_dom (Some (snd kv)))))
               (m_map d)
         | None \<Rightarrow> [])
      else map (\<lambda>kv. (fst kv, Json_wrapper_binary (snd kv))) (Value_members (m_value w)))"

subsection \<open>Paths\<close>

text \<open>
  Modelled from the spec: \<^verbatim>\<open>Json_path_leg\<close>, \<^verbatim>\<open>Json_array_index\<close> and
  \<^verbatim>\<open>Json_seekable_path\<close> are declared outside this file. The spec (section 4.5) gives the
  leg kinds: a member by name, the member wildcard, an array cell by an index that may
  count from the end, the cell wildcard, a range of cells, and the ellipsis. A leg is
  auto-wrap eligible when it is the cell 0 or the cell wildcard. A path is the list of its
  legs.
\<close>

datatype enum_json_path_leg_type =
  jpl_member | jpl_array_cell | jpl_array_range | jpl_member_wildcard
  | jpl_array_cell_wildcard | jpl_ellipsis

datatype Json_path_leg =
  Leg_member string
  | Leg_member_wildcard
  | Leg_array_cell nat bool
  | Leg_array_cell_wildcard
  | Leg_array_range nat bool nat bool
  | Leg_ellipsis

fun get_type :: "Json_path_leg \<Rightarrow> enum_json_path_leg_type" where
  "get_type (Leg_member _) = jpl_member"
| "get_type Leg_member_wildcard = jpl_member_wildcard"
| "get_type (Leg_array_cell _ _) = jpl_array_cell"
| "get_type Leg_array_cell_wildcard = jpl_array_cell_wildcard"
| "get_type (Leg_array_range _ _ _ _) = jpl_array_range"
| "get_type Leg_ellipsis = jpl_ellipsis"

fun get_member_name :: "Json_path_leg \<Rightarrow> string" where
  "get_member_name (Leg_member name) = name"
| "get_member_name _ = []"

record Json_array_index =
  within_bounds :: bool
  position :: nat

text \<open>An index resolved against an array of the given length.\<close>

definition array_index :: "nat \<Rightarrow> bool \<Rightarrow> nat \<Rightarrow> Json_array_index" where
  "array_index index from_end array_length =
     \<lparr>within_bounds = (index < array_length),
      position = (if from_end then (if index < array_length then array_length - index - 1 else 0)
                  else min index array_length)\<rparr>"

fun first_array_index :: "Json_path_leg \<Rightarrow> nat \<Rightarrow> Json_array_index" where
  "first_array_index (Leg_array_cell index from_end) array_length =
     array_index index from_end array_length"
| "first_array_index (Leg_array_range index from_end _ _) array_length =
     array_index index from_end array_length"
| "first_array_index _ array_length = array_index 0 False array_length"

text \<open>The cells a range or the cell wildcard covers: from \<open>fst\<close> up to, not including, \<open>snd\<close>.\<close>

fun get_array_range :: "Json_path_leg \<Rightarrow> nat \<Rightarrow> nat \<times> nat" where
  "get_array_range (Leg_array_range first_index first_from_end last_index last_from_end)
       array_length =
     (let b = position (array_index first_index first_from_end array_length);
          l = array_index last_index last_from_end array_length
      in (b, if within_bounds l then position l + 1 else position l))"
| "get_array_range _ array_length = (0, array_length)"

fun is_autowrap :: "Json_path_leg \<Rightarrow> bool" where
  "is_autowrap (Leg_array_cell index _) = (index = 0)"
| "is_autowrap Leg_array_cell_wildcard = True"
| "is_autowrap _ = False"

subsection \<open>Seeking without an ellipsis\<close>

definition is_seek_done :: "'a list \<Rightarrow> bool \<Rightarrow> bool" where
  "is_seek_done hits only_need_one = (only_need_one \<and> length hits > 0)"

text \<open>
  \<^verbatim>\<open>Json_wrapper::seek_no_ellipsis\<close>, with the two loops over members and over cells as
  \<open>seek_each\<close>. The result is the error flag of the source and the vector of hits. Asking
  for a leg the path does not have (the source would follow a null pointer) and cloning
  through a null DOM pointer end with the error flag.
\<close>

function seek_no_ellipsis ::
    "Json_wrapper \<Rightarrow> Json_path_leg list \<Rightarrow> Json_wrapper list \<Rightarrow> nat \<Rightarrow> nat \<Rightarrow> bool \<Rightarrow> bool
       \<Rightarrow> bool \<times> Json_wrapper list"
  and seek_each ::
    "Json_wrapper list \<Rightarrow> Json_path_leg list \<Rightarrow> Json_wrapper list \<Rightarrow> nat \<Rightarrow> nat \<Rightarrow> bool \<Rightarrow> bool
       \<Rightarrow> bool \<times> Json_wrapper list"
where
  "seek_no_ellipsis w path hits current_leg last_leg auto_wrap only_need_one =
     (if current_leg \<ge> last_leg then
        (if m_is_dom w then
           (case m_dom_value w of
              None \<Rightarrow> (True, hits)
            | Some d \<Rightarrow> (False, hits @ [Json_wrapper_dom (Some d)]))
         else (False, hits @ [w]))
      else if current_leg \<ge> length path then (True, hits)
      else
        (let path_leg = path ! current_leg;
             jtype = Json_wrapper_type w
         in if auto_wrap \<and> jtype \<noteq> J_ARRAY \<and> is_autowrap path_leg then
              seek_no_ellipsis w path hits (current_leg + 1) last_leg auto_wrap only_need_one
            else
              (case get_type path_leg of
                 jpl_member \<Rightarrow>
                   (if jtype = J_OBJECT then
                      (let member = Json_wrapper_lookup w (get_member_name path_leg)
                       in if Json_wrapper_type member \<noteq> J_ERROR then
                            seek_no_ellipsis member path hits (current_leg + 1) last_leg
                              auto_wrap only_need_one
                          else (False, hits))
                    else (False, hits))
               | jpl_member_wildcard \<Rightarrow>
                   (if jtype = J_OBJECT then
                      seek_each (map snd (object_iterator w)) path hits (current_leg + 1)
                        last_leg auto_wrap only_need_one
                    else (False, hits))
               | jpl_array_cell \<Rightarrow>
                   (if jtype = J_ARRAY then
                      (let idx = first_array_index path_leg (Json_wrapper_length w)
                       in if within_bounds idx then
                            seek_no_ellipsis (Json_wrapper_index w (position idx)) path hits
                              (current_leg + 1) last_leg auto_wrap only_need_one
                          else (False, hits))
                    else (False, hits))
               | jpl_array_range \<Rightarrow>
                   (if jtype = J_ARRAY then
                      (let range = get_array_range path_leg (Json_wrapper_length w)
                       in seek_each (map (Json_wrapper_index w) [fst range ..< snd range])
                            path hits (current_leg + 1) last_leg auto_wrap only_need_one)
                    else (False, hits))
               | jpl_array_cell_wildcard \<Rightarrow>
                   (if jtype = J_ARRAY then
                      (let range = get_array_range path_leg (Json_wrapper_length w)
                       in seek_each (map (Json_wrapper_index w) [fst range ..< snd range])
                            path hits (current_leg + 1) last_leg auto_wrap only_need_one)
                    else (False, hits))
               | jpl_ellipsis \<Rightarrow> (True, hits))))"
| "seek_each [] path hits next_leg last_leg auto_wrap only_need_one = (False, hits)"
| "seek_each (cell # cells) path hits next_leg last_leg auto_wrap only_need_one =
     (if is_seek_done hits only_need_one then (False, hits)
      else
        (case seek_no_ellipsis cell path hits next_leg last_leg auto_wrap only_need_one of
           (True, hits') \<Rightarrow> (True, hits')
         | (False, hits') \<Rightarrow>
             seek_each cells path hits' next_leg last_leg auto_wrap only_need_one))"
  by pat_completeness auto

termination seek_no_ellipsis
  by (relation "inv_image (less_than <*lex*> less_than)
        (\<lambda>x. case x of
           Inl (w, path, hits, current_leg, last_leg, rest) \<Rightarrow>
             (2 * (Suc last_leg - current_leg), 0)
         | Inr (cells, path, hits, next_leg, last_leg, rest) \<Rightarrow>
             (2 * (Suc last_leg - next_leg) + 1, length cells))")
     auto

declare seek_no_ellipsis.simps [simp del]

subsection \<open>In-place update of a binary document\<close>

text \<open>
  What \<^verbatim>\<open>attempt_binary_update\<close> asks of code outside this file, as parameters:
  \<^verbatim>\<open>space_needed\<close> (the bytes the new value takes in the parent's encoding width, or an
  error), \<^verbatim>\<open>Value::has_space\<close> (the offset of enough free space for the slot, or none),
  \<^verbatim>\<open>Value::update_in_shadow\<close> (given the original and the destination, the bytes it
  stores through the destination pointer, as positions and values, or an error) and
  \<^verbatim>\<open>parse_binary\<close>.
\<close>

record json_binary_functions =
  space_needed :: "Json_wrapper \<Rightarrow> bool \<Rightarrow> nat option"
  has_space :: "Value \<Rightarrow> nat \<Rightarrow> nat \<Rightarrow> nat option"
  update_in_shadow ::
    "Value \<Rightarrow> nat \<Rightarrow> Json_wrapper \<Rightarrow> nat \<Rightarrow> nat \<Rightarrow> uchar list \<Rightarrow> uchar list
       \<Rightarrow> (nat \<times> uchar) list option"
  parse_binary :: "uchar list \<Rightarrow> Value"

text \<open>The column the document is stored in: \<^verbatim>\<open>field->get_binary()\<close>.\<close>

record Field_json =
  get_binary :: "uchar list"

text \<open>
  Stores through a \<^verbatim>\<open>char *\<close> into a buffer: each changes one byte and none changes the
  length of the buffer. A store past the end of the buffer is \<open>None\<close>.
\<close>

fun store_bytes :: "(nat \<times> uchar) list \<Rightarrow> uchar list \<Rightarrow> uchar list option" where
  "store_bytes [] destination = Some destination"
| "store_bytes ((i, b) # writes) destination =
     (if i < length destination then store_bytes writes (destination[i := b]) else None)"

text \<open>
  The outcome of an update attempt that returned \<open>false\<close> (no error): the wrapper and the
  result buffer after the call and the two flags. The other ways out: the function
  returned \<open>true\<close>, a \<^verbatim>\<open>DBUG_ASSERT\<close> failed, or a store left the buffer.
\<close>

record update_outcome =
  wrapper :: Json_wrapper
  result_buffer :: "uchar list"
  partially_updated :: bool
  replaced_path :: bool

datatype update_failure = Returned_true | Assertion_failed | Store_out_of_bounds

definition attempt_binary_update ::
    "json_binary_functions \<Rightarrow> Json_wrapper \<Rightarrow> Field_json \<Rightarrow> Json_path_leg list \<Rightarrow> Json_wrapper
       \<Rightarrow> bool \<Rightarrow> uchar list \<Rightarrow> update_failure + update_outcome" where
  "attempt_binary_update fns this field path new_value replace result =
     (if m_is_dom this then Inl Assertion_failed
      else if length path = 0 then
        Inr \<lparr>wrapper = this, result_buffer = result,
             partially_updated = False, replaced_path = False\<rparr>
      else
        (case seek_no_ellipsis this path [] 0 (length path - 1) False True of
           (True, _) \<Rightarrow> Inl Returned_true
         | (False, hits) \<Rightarrow>
             if hits = [] then
               Inr \<lparr>wrapper = this, result_buffer = result,
                    partially_updated = True, replaced_path = False\<rparr>
             else if length hits \<noteq> 1 \<or> m_is_dom (hits ! 0) then Inl Assertion_failed
             else
               (let parent = m_value (hits ! 0);
                    last_leg = path ! (length path - 1);
                    not_replaced = (\<lambda>partially.
                      Inr \<lparr>wrapper = this, result_buffer = result,
                           partially_updated = partially, replaced_path = False\<rparr>);
                    found =
                      (case Value_type parent of
                         OBJECT \<Rightarrow>
                           (if get_type last_leg \<noteq> jpl_member then Inl replace
                            else
                              (let element_pos =
                                     Value_lookup_index parent (get_member_name last_leg)
                               in if element_pos = Value_element_count parent then Inl replace
                                  else Inr element_pos))
                       | ARRAY \<Rightarrow>
                           (if get_type last_leg \<noteq> jpl_array_cell then Inl True
                            else
                              (let idx = first_array_index last_leg (Value_element_count parent)
                               in if \<not> within_bounds idx then Inl replace
                                  else Inr (position idx)))
                       | _ \<Rightarrow> Inl (replace \<or> get_type last_leg \<noteq> jpl_array_cell))
                in case found of
                     Inl partially \<Rightarrow> not_replaced partially
                   | Inr element_pos \<Rightarrow>
                       if \<not> element_pos < Value_element_count parent then Inl Assertion_failed
                       else
                         (case space_needed fns new_value (Value_large_format parent) of
                            None \<Rightarrow> Inl Returned_true
                          | Some needed \<Rightarrow>
                              (case (if needed > 0 then has_space fns parent element_pos needed
                                     else Some 0) of
                                 None \<Rightarrow> not_replaced False
                               | Some data_offset \<Rightarrow>
                                   if result \<noteq> [] \<and> Value_raw_binary (m_value this) \<noteq> result
                                   then Inl Assertion_failed
                                   else
                                     (let result1 =
                                            (if result = [] then Value_raw_binary (m_value this)
                                             else result);
                                          original =
                                            (if result = [] then get_binary field else result)
                                      in if \<not> length result1 \<ge> data_offset + needed
                                         then Inl Assertion_failed
                                         else
                                           (case update_in_shadow fns parent element_pos
                                                   new_value data_offset needed original result1 of
                                              None \<Rightarrow> Inl Returned_true
                                            | Some writes \<Rightarrow>
                                                (case store_bytes writes result1 of
                                                   None \<Rightarrow> Inl Store_out_of_bounds
                                                 | Some result2 \<Rightarrow>
                                                     Inr \<lparr>wrapper =
                                                            this\<lparr>m_value :=
                                                              parse_binary fns result2\<rparr>,
                                                          result_buffer = result2,
                                                          partially_updated = True,
                                                          replaced_path = True\<rparr>))))))))"

subsection \<open>The handler of the text parser\<close>

text \<open>
  Modelled from the spec: \<^verbatim>\<open>JSON_DOCUMENT_MAX_DEPTH\<close> is defined in the header, outside
  this file; the spec gives \<^verbatim>\<open>MAX_DEPTH = 100\<close>.
\<close>

definition JSON_DOCUMENT_MAX_DEPTH :: "64 word" where
  "JSON_DOCUMENT_MAX_DEPTH = 100"

datatype parse_failure = Document_too_deep | Returned_false | Assertion | Undefined_behaviour

text \<open>
  \<^verbatim>\<open>check_json_depth\<close> on a \<^verbatim>\<open>size_t\<close>: true, after raising
  \<^verbatim>\<open>ER_JSON_DOCUMENT_TOO_DEEP\<close>, when the depth exceeds the maximum.
\<close>

definition check_json_depth :: "64 word \<Rightarrow> bool" where
  "check_json_depth depth = (depth > JSON_DOCUMENT_MAX_DEPTH)"

datatype enum_state =
  expect_anything | expect_array_value | expect_object_key | expect_object_value | expect_eof

text \<open>
  The handler owns the root of the DOM it builds and points at the container being filled,
  which reaches the root through \<^verbatim>\<open>parent()\<close>. In the model \<open>m_current_element\<close> is
  that chain: the open containers from the current one out to the root, each with its
  contents so far and the way its parent holds it. \<open>Deleted\<close> marks a container
  \<^verbatim>\<open>add_alias\<close> deleted because its key was already in the object: the source keeps
  the pointer, and following it is undefined. The empty chain is the null pointer.
  \<open>m_dom_as_built\<close> holds the root once it is complete.
\<close>

datatype attachment = At_root | In_array | In_object string | Deleted

record Rapid_json_handler =
  m_state :: enum_state
  m_dom_as_built :: "Json_dom option"
  m_current_element :: "(Json_dom \<times> attachment) list"
  m_depth :: "64 word"
  m_key :: string

definition Rapid_json_handler_init :: Rapid_json_handler where
  "Rapid_json_handler_init =
     \<lparr>m_state = expect_anything, m_dom_as_built = None, m_current_element = [],
      m_depth = 0, m_key = []\<rparr>"

text \<open>
  \<^verbatim>\<open>seeing_value\<close>: the depth is checked first, then the value is placed according to
  the state. Besides the handler, the model returns how the value is now held, which
  \<^verbatim>\<open>StartObject\<close> and \<^verbatim>\<open>StartArray\<close> need for the pointer they keep.
\<close>

definition seeing_value ::
    "Rapid_json_handler \<Rightarrow> Json_dom \<Rightarrow> parse_failure + (Rapid_json_handler \<times> attachment)" where
  "seeing_value h v =
     (if check_json_depth (m_depth h + 1) then Inl Document_too_deep
      else
        (case m_state h of
           expect_anything \<Rightarrow>
             Inr (h\<lparr>m_dom_as_built := Some v, m_state := expect_eof\<rparr>, At_root)
         | expect_array_value \<Rightarrow>
             (case m_current_element h of
                (Json_array a, held) # outer \<Rightarrow>
                  (if held = Deleted then Inl Undefined_behaviour
                   else
                     (case Json_array_append_alias a (Some v) of
                        (True, _) \<Rightarrow> Inl Returned_false
                      | (False, a') \<Rightarrow>
                          Inr (h\<lparr>m_current_element := (Json_array a', held) # outer\<rparr>,
                               In_array)))
              | _ \<Rightarrow> Inl Undefined_behaviour)
         | expect_object_value \<Rightarrow>
             (case m_current_element h of
                (Json_object m, held) # outer \<Rightarrow>
                  (if held = Deleted then Inl Undefined_behaviour
                   else
                     (case Json_object_add_alias m (m_key h) (Some v) of
                        (True, _) \<Rightarrow> Inl Returned_false
                      | (False, m') \<Rightarrow>
                          Inr (h\<lparr>m_state := expect_object_key,
                                 m_current_element := (Json_object m', held) # outer\<rparr>,
                               if map_find (m_key h) m = None then In_object (m_key h)
                               else Deleted)))
              | _ \<Rightarrow> Inl Undefined_behaviour)
         | _ \<Rightarrow> Inl Assertion))"

text \<open>The scalar callbacks; \<open>isfinite\<close> is \<^verbatim>\<open>std::isfinite\<close> on the fields of a double.\<close>

definition isfinite :: "double \<Rightarrow> bool" where
  "isfinite d = (biased_exponent d \<noteq> 2047)"

datatype token =
  Tok_Null | Tok_Bool bool | Tok_Int "32 word" | Tok_Uint "32 word" | Tok_Int64 "64 word"
  | Tok_Uint64 "64 word" | Tok_Double double | Tok_RawNumber string | Tok_String string

datatype event = Scalar token | StartObject | Key string | EndObject | StartArray | EndArray

text \<open>
  \<^verbatim>\<open>my_strtod\<close> is outside this file: a parameter giving the value and whether the
  error is \<^verbatim>\<open>EOVERFLOW\<close>.
\<close>

fun token_value :: "(string \<Rightarrow> double \<times> bool) \<Rightarrow> token \<Rightarrow> Json_dom option" where
  "token_value my_strtod Tok_Null = Some Json_null"
| "token_value my_strtod (Tok_Bool b) = Some (Json_boolean b)"
| "token_value my_strtod (Tok_Int i) = Some (Json_int (scast i))"
| "token_value my_strtod (Tok_Uint u) = Some (Json_int (ucast u))"
| "token_value my_strtod (Tok_Int64 i) = Some (Json_int i)"
| "token_value my_strtod (Tok_Uint64 ui64) = Some (Json_uint ui64)"
| "token_value my_strtod (Tok_Double d) = (if \<not> isfinite d then None else Some (Json_double d))"
| "token_value my_strtod (Tok_RawNumber str) =
     (case my_strtod str of
        (v, overflow) \<Rightarrow>
          if overflow then None else if \<not> isfinite v then None else Some (Json_double v))"
| "token_value my_strtod (Tok_String str) = Some (Json_string str)"

definition handle_scalar ::
    "(string \<Rightarrow> double \<times> bool) \<Rightarrow> Rapid_json_handler \<Rightarrow> token
       \<Rightarrow> parse_failure + Rapid_json_handler" where
  "handle_scalar my_strtod h t =
     (case token_value my_strtod t of
        None \<Rightarrow> Inl Returned_false
      | Some v \<Rightarrow>
          (case seeing_value h v of Inl f \<Rightarrow> Inl f | Inr (h', held) \<Rightarrow> Inr h'))"

text \<open>
  \<^verbatim>\<open>StartObject\<close> and \<^verbatim>\<open>StartArray\<close>: the empty container is placed as a value, then
  the depth goes up and the container becomes the current element. A root container has
  no parent.
\<close>

definition start_container ::
    "Rapid_json_handler \<Rightarrow> Json_dom \<Rightarrow> enum_state \<Rightarrow> parse_failure + Rapid_json_handler" where
  "start_container h container next_state =
     (case seeing_value h container of
        Inl f \<Rightarrow> Inl f
      | Inr (h', held) \<Rightarrow>
          Inr (h'\<lparr>m_depth := m_depth h' + 1,
                 m_current_element :=
                   (container, held) # (if held = At_root then [] else m_current_element h'),
                 m_state := next_state\<rparr>))"

definition StartObject_cb :: "Rapid_json_handler \<Rightarrow> parse_failure + Rapid_json_handler" where
  "StartObject_cb h = start_container h (Json_object []) expect_object_key"

definition StartArray_cb :: "Rapid_json_handler \<Rightarrow> parse_failure + Rapid_json_handler" where
  "StartArray_cb h = start_container h (Json_array []) expect_array_value"

text \<open>
  \<^verbatim>\<open>end_object_or_array\<close>: one level up. The contents of the closed container are where
  its parent holds it; the state follows the type of the parent.
\<close>

definition end_object_or_array :: "Rapid_json_handler \<Rightarrow> parse_failure + Rapid_json_handler" where
  "end_object_or_array h =
     (let depth' = m_depth h - 1
      in case m_current_element h of
           [] \<Rightarrow> Inl Undefined_behaviour
         | (c, held) # outer \<Rightarrow>
             (case held of
                Deleted \<Rightarrow> Inl Undefined_behaviour
              | At_root \<Rightarrow>
                  (if depth' \<noteq> 0 then Inl Assertion
                   else Inr (h\<lparr>m_depth := depth', m_current_element := [],
                              m_dom_as_built := Some c, m_state := expect_eof\<rparr>))
              | In_array \<Rightarrow>
                  (case outer of
                     (Json_array a, pheld) # outer' \<Rightarrow>
                       Inr (h\<lparr>m_depth := depth',
                              m_current_element := (Json_array (butlast a @ [c]), pheld) # outer',
                              m_state := expect_array_value\<rparr>)
                   | _ \<Rightarrow> Inl Undefined_behaviour)
              | In_object k \<Rightarrow>
                  (case outer of
                     (Json_object m, pheld) # outer' \<Rightarrow>
                       Inr (h\<lparr>m_depth := depth',
                              m_current_element := (Json_object (map_assign k c m), pheld) # outer',
                              m_state := expect_object_key\<rparr>)
                   | _ \<Rightarrow> Inl Undefined_behaviour)))"

definition EndObject_cb :: "Rapid_json_handler \<Rightarrow> parse_failure + Rapid_json_handler" where
  "EndObject_cb h =
     (if m_state h \<noteq> expect_object_key then Inl Assertion else end_object_or_array h)"

definition EndArray_cb :: "Rapid_json_handler \<Rightarrow> parse_failure + Rapid_json_handler" where
  "EndArray_cb h =
     (if m_state h \<noteq> expect_array_value then Inl Assertion else end_object_or_array h)"

definition Key_cb :: "Rapid_json_handler \<Rightarrow> string \<Rightarrow> parse_failure + Rapid_json_handler" where
  "Key_cb h str =
     (if check_json_depth (m_depth h + 1) then Inl Document_too_deep
      else if m_state h \<noteq> expect_object_key then Inl Assertion
      else Inr (h\<lparr>m_state := expect_object_value, m_key := str\<rparr>))"

fun handle_event ::
    "(string \<Rightarrow> double \<times> bool) \<Rightarrow> Rapid_json_handler \<Rightarrow> event
       \<Rightarrow> parse_failure + Rapid_json_handler" where
  "handle_event my_strtod h (Scalar t) = handle_scalar my_strtod h t"
| "handle_event my_strtod h StartObject = StartObject_cb h"
| "handle_event my_strtod h (Key str) = Key_cb h str"
| "handle_event my_strtod h EndObject = EndObject_cb h"
| "handle_event my_strtod h StartArray = StartArray_cb h"
| "handle_event my_strtod h EndArray = EndArray_cb h"

text \<open>
  The reader (rapidjson, not part of this repository) calls the handler once per token of
  the text, in order, and stops at the first callback that returns false. \<open>run_events\<close>
  is that loop over the events of a text; a failure carries the index of the event the
  handler refused.
\<close>

fun run_events ::
    "(string \<Rightarrow> double \<times> bool) \<Rightarrow> Rapid_json_handler \<Rightarrow> event list \<Rightarrow> nat
       \<Rightarrow> (nat \<times> parse_failure) + Rapid_json_handler" where
  "run_events my_strtod h [] i = Inr h"
| "run_events my_strtod h (e # es) i =
     (case handle_event my_strtod h e of
        Inl f \<Rightarrow> Inl (i, f)
      | Inr h' \<Rightarrow> run_events my_strtod h' es (Suc i))"

definition Reader_Parse ::
    "(string \<Rightarrow> double \<times> bool) \<Rightarrow> event list \<Rightarrow> (nat \<times> parse_failure) + Rapid_json_handler" where
  "Reader_Parse my_strtod events = run_events my_strtod Rapid_json_handler_init events 0"

text \<open>
  A JSON text as the tree of its tokens, the events the reader emits for it, and its
  depth: 1 for a scalar, one more than the deepest member for a container.
\<close>

datatype json_text =
  Text_scalar token
  | Text_array "json_text list"
  | Text_object "(string \<times> json_text) list"

fun max_list :: "nat list \<Rightarrow> nat" where
  "max_list [] = 0"
| "max_list (x # xs) = max x (max_list xs)"

fun events_of :: "json_text \<Rightarrow> event list" where
  "events_of (Text_scalar t) = [Scalar t]"
| "events_of (Text_array cs) = StartArray # concat (map events_of cs) @ [EndArray]"
| "events_of (Text_object ms) =
     StartObject # concat (map (\<lambda>kv. Key (fst kv) # events_of (snd kv)) ms) @ [EndObject]"

fun text_depth :: "json_text \<Rightarrow> nat" where
  "text_depth (Text_scalar t) = 1"
| "text_depth (Text_array cs) = 1 + max_list (map text_depth cs)"
| "text_depth (Text_object ms) = 1 + max_list (map (\<lambda>kv. text_depth (snd kv)) ms)"

text \<open>
  A text the handler can only refuse for its depth: every number is finite and no object
  repeats a key.
\<close>

fun text_ok :: "(string \<Rightarrow> double \<times> bool) \<Rightarrow> json_text \<Rightarrow> bool" where
  "text_ok my_strtod (Text_scalar t) = (token_value my_strtod t \<noteq> None)"
| "text_ok my_strtod (Text_array cs) = list_all (text_ok my_strtod) cs"
| "text_ok my_strtod (Text_object ms) =
     (distinct (map fst ms) \<and> list_all (\<lambda>kv. text_ok my_strtod (snd kv)) ms)"

subsection \<open>Doubles, decimals and the conversions between them\<close>

text \<open>
  The comparisons of the language on a \<^verbatim>\<open>double\<close>, read from the three fields.
  \<open>double_units\<close> is the value counted in units of \<open>2^-1074\<close>, the smallest positive double:
  every finite double is a whole number of them, and the same formula puts an infinity
  beyond every finite value. A NaN compares false with everything.
\<close>

definition isnan :: "double \<Rightarrow> bool" where
  "isnan d = (biased_exponent d = 2047 \<and> fraction d \<noteq> 0)"

definition double_units :: "double \<Rightarrow> int" where
  "double_units d =
     (let m = (if biased_exponent d = 0 then int (fraction d)
               else (2 ^ 52 + int (fraction d)) * 2 ^ (biased_exponent d - 1))
      in if sign_bit d then - m else m)"

definition double_less :: "double \<Rightarrow> double \<Rightarrow> bool" where
  "double_less a b = (\<not> isnan a \<and> \<not> isnan b \<and> double_units a < double_units b)"

definition double_equal :: "double \<Rightarrow> double \<Rightarrow> bool" where
  "double_equal a b = (\<not> isnan a \<and> \<not> isnan b \<and> double_units a = double_units b)"


text \<open>
  \<^verbatim>\<open>static_cast<double>\<close> of an integer rounds to the nearest double, ties to even (IEEE 754
  in the default rounding mode). \<open>round_to_double\<close> does this for any rational \<open>p/q\<close>:
  \<open>shift2 p q e\<close> is the fraction \<open>p/q * 2^-e\<close>, \<open>binary_exponent\<close> the \<open>e\<close> with
  \<open>2^e \<le> p/q < 2^(e+1)\<close>, and the significand is the quotient scaled to 53 bits (fewer
  below the normal range) and rounded half to even.
\<close>

definition shift2 :: "int \<Rightarrow> int \<Rightarrow> int \<Rightarrow> int \<times> int" where
  "shift2 p q e = (if e \<le> 0 then (p * 2 ^ nat (- e), q) else (p, q * 2 ^ nat e))"

definition binary_exponent :: "int \<Rightarrow> int \<Rightarrow> int" where
  "binary_exponent p q =
     (let e0 = bitlen p - bitlen q
      in if snd (shift2 p q e0) \<le> fst (shift2 p q e0) then e0 else e0 - 1)"

definition round_half_even :: "int \<Rightarrow> int \<Rightarrow> int" where
  "round_half_even num den =
     (let m = num div den;
          rem = num mod den
      in if den < 2 * rem \<or> (2 * rem = den \<and> odd m) then m + 1 else m)"

definition round_to_double :: "rat \<Rightarrow> double" where
  "round_to_double r =
     (let s = (r < 0);
          p = fst (quotient_of \<bar>r\<bar>);
          q = snd (quotient_of \<bar>r\<bar>)
      in if p = 0 then Double False 0 0
         else
           (let e = max (binary_exponent p q) (- 1022);
                m = round_half_even (fst (shift2 p q (e - 52))) (snd (shift2 p q (e - 52)));
                m' = (if m = 2 ^ 53 then 2 ^ 52 else m);
                e' = (if m = 2 ^ 53 then e + 1 else e)
            in if m' < 2 ^ 52 then Double s 0 (nat m')
               else if 1023 < e' then Double s 2047 0
               else Double s (nat (e' + 1023)) (nat (m' - 2 ^ 52))))"

text \<open>
  The literal \<^verbatim>\<open>0\<close> as a double, and the two integer conversions:
  \<^verbatim>\<open>static_cast<double>(longlong)\<close> and the macro \<^verbatim>\<open>ulonglong2double\<close>, the same cast from
  \<^verbatim>\<open>ulonglong\<close>.
\<close>

definition double_zero :: double where
  "double_zero = Double False 0 0"

definition longlong2double :: "longlong \<Rightarrow> double" where
  "longlong2double b = round_to_double (of_int (sint b))"

definition ulonglong2double :: "ulonglong \<Rightarrow> double" where
  "ulonglong2double b = round_to_double (of_int (uint b))"

text \<open>
  Modelled from the spec: the operations of \<^verbatim>\<open>my_decimal\<close> are outside this file. The spec
  (sections 3 and 4.6) has a DECIMAL denote its fixed-point value and the numeric kinds
  compare by numeric value; \<open>dec_value\<close> is that value. \<^verbatim>\<open>my_decimal_is_zero\<close> tests
  the digits and \<^verbatim>\<open>sign()\<close> is \<open>dec_sign\<close>, so a negative zero exists, as the comment
  in \<^verbatim>\<open>Json_wrapper::compare\<close> says.
\<close>

definition my_decimal_is_zero :: "my_decimal \<Rightarrow> bool" where
  "my_decimal_is_zero d = (dec_digits d = 0)"

definition dec_value :: "my_decimal \<Rightarrow> rat" where
  "dec_value d =
     (if dec_sign d then - (of_nat (dec_digits d) / 10 ^ dec_frac d)
      else of_nat (dec_digits d) / 10 ^ dec_frac d)"

text \<open>
  \<^verbatim>\<open>compare_numbers\<close>: one instance for the ordered types, one for doubles with the
  comparisons of doubles.
\<close>

definition compare_numbers :: "'a::linorder \<Rightarrow> 'a \<Rightarrow> int" where
  "compare_numbers val1 val2 = (if val1 < val2 then - 1 else (if val1 = val2 then 0 else 1))"

definition compare_numbers_double :: "double \<Rightarrow> double \<Rightarrow> int" where
  "compare_numbers_double val1 val2 =
     (if double_less val1 val2 then - 1 else (if double_equal val1 val2 then 0 else 1))"

text \<open>
  Modelled from the spec: \<^verbatim>\<open>my_decimal_cmp\<close> compares by value, except that it
  "treats -0 and 0 as not equal" (the comment in \<^verbatim>\<open>Json_wrapper::compare\<close>): with different
  signs the negative one is the smaller. \<^verbatim>\<open>longlong2decimal\<close> and
  \<^verbatim>\<open>ulonglong2decimal\<close> are exact, and \<^verbatim>\<open>decimal2double\<close> gives the double nearest to
  the value (section 4.7 of the spec: numerics hash through their double representation).
\<close>

definition my_decimal_cmp :: "my_decimal \<Rightarrow> my_decimal \<Rightarrow> int" where
  "my_decimal_cmp a b =
     (if dec_sign a = dec_sign b then compare_numbers (dec_value a) (dec_value b)
      else if dec_sign a then - 1 else 1)"

definition longlong2decimal :: "longlong \<Rightarrow> my_decimal" where
  "longlong2decimal b = My_decimal (sint b < 0) (nat \<bar>sint b\<bar>) 0"

definition ulonglong2decimal :: "ulonglong \<Rightarrow> my_decimal" where
  "ulonglong2decimal b = My_decimal False (unat b) 0"

definition decimal2double :: "my_decimal \<Rightarrow> double" where
  "decimal2double d = round_to_double (dec_value d)"

text \<open>
  Modelled from the spec: \<^verbatim>\<open>double2decimal\<close> and \<^verbatim>\<open>binary2my_decimal\<close> are outside this
  file and stay parameters. \<^verbatim>\<open>double2decimal\<close> returns one of the \<^verbatim>\<open>E_DEC_*\<close> codes
  together with the decimal.

  The third parameter belongs to \<^verbatim>\<open>memcmp\<close> of the C library: the part of its result that
  the C standard leaves to the library, how far from zero a non-zero result is, less one.
\<close>

datatype decimal_result =
  E_DEC_OK | E_DEC_TRUNCATED | E_DEC_OVERFLOW | E_DEC_DIV_ZERO | E_DEC_BAD_NUM | E_DEC_OOM

record library_functions =
  binary2my_decimal :: "char \<Rightarrow> char \<Rightarrow> string \<Rightarrow> my_decimal option"
  double2decimal :: "double \<Rightarrow> decimal_result \<times> my_decimal"
  memcmp_magnitude :: "string \<Rightarrow> string \<Rightarrow> nat \<Rightarrow> nat"

text \<open>
  The value \<^verbatim>\<open>memcmp\<close> returns: the sign is \<open>memcmp_sign\<close>, the size is the library's.
\<close>

definition memcmp :: "library_functions \<Rightarrow> string \<Rightarrow> string \<Rightarrow> nat \<Rightarrow> int" where
  "memcmp lib s1 s2 n = memcmp_sign s1 s2 n * (1 + int (memcmp_magnitude lib s1 s2 n))"

subsection \<open>Comparison\<close>

text \<open>
  The cross-type routines, branch by branch. \<^verbatim>\<open>b < 0\<close> and \<^verbatim>\<open>b == 0\<close> on a double are
  \<open>double_less\<close> and \<open>double_equal\<close> against zero.
\<close>

definition compare_json_decimal_double ::
    "library_functions \<Rightarrow> my_decimal \<Rightarrow> double \<Rightarrow> int" where
  "compare_json_decimal_double lib a b =
     (let a_is_zero = my_decimal_is_zero a;
          a_is_negative = (dec_sign a \<and> \<not> a_is_zero);
          b_is_negative = double_less b double_zero
      in if a_is_negative \<noteq> b_is_negative then (if a_is_negative then - 1 else 1)
         else
           (let b_is_zero = double_equal b double_zero
            in if a_is_zero then (if b_is_zero then 0 else - 1)
               else if b_is_zero then 1
               else
                 (case double2decimal lib b of
                    (E_DEC_OK, b_dec) \<Rightarrow> my_decimal_cmp a b_dec
                  | (E_DEC_OVERFLOW, b_dec) \<Rightarrow> (if a_is_negative then 1 else - 1)
                  | (E_DEC_TRUNCATED, b_dec) \<Rightarrow>
                      (let cmp = my_decimal_cmp a b_dec
                       in if cmp = 0 then (if a_is_negative then 1 else - 1) else cmp)
                  | _ \<Rightarrow> 1)))"

definition compare_json_decimal_int :: "my_decimal \<Rightarrow> longlong \<Rightarrow> int" where
  "compare_json_decimal_int a b =
     (if my_decimal_is_zero a then (if b = 0 then 0 else (if 0 < sint b then - 1 else 1))
      else if b = 0 then (if dec_sign a then - 1 else 1)
      else if dec_sign a \<noteq> (sint b < 0) then (if sint b < 0 then 1 else - 1)
      else my_decimal_cmp a (longlong2decimal b))"

definition compare_json_decimal_uint :: "my_decimal \<Rightarrow> ulonglong \<Rightarrow> int" where
  "compare_json_decimal_uint a b =
     (if my_decimal_is_zero a then (if b = 0 then 0 else - 1)
      else if dec_sign a then - 1
      else if b = 0 then 1
      else my_decimal_cmp a (ulonglong2decimal b))"

definition compare_json_double_int :: "library_functions \<Rightarrow> double \<Rightarrow> longlong \<Rightarrow> int" where
  "compare_json_double_int lib a b =
     (let b_double = longlong2double b
      in if double_less a b_double then - 1
         else if double_less b_double a then 1
         else - compare_json_decimal_double lib (longlong2decimal b) a)"

definition compare_json_double_uint :: "library_functions \<Rightarrow> double \<Rightarrow> ulonglong \<Rightarrow> int" where
  "compare_json_double_uint lib a b =
     (let b_double = ulonglong2double b
      in if double_less a b_double then - 1
         else if double_less b_double a then 1
         else - compare_json_decimal_double lib (ulonglong2decimal b) a)"

definition compare_json_int_uint :: "longlong \<Rightarrow> ulonglong \<Rightarrow> int" where
  "compare_json_int_uint a b = (if sint a < 0 then - 1 else compare_numbers (uint a) (uint b))"

text \<open>
  \<^verbatim>\<open>compare_json_strings\<close>: the result of \<^verbatim>\<open>memcmp\<close> is returned as it is.
\<close>

definition compare_json_strings ::
    "library_functions \<Rightarrow> string \<Rightarrow> nat \<Rightarrow> string \<Rightarrow> nat \<Rightarrow> int" where
  "compare_json_strings lib str1 str1_len str2 str2_len =
     (let cmp = memcmp lib str1 str2 (min str1_len str2_len)
      in if cmp \<noteq> 0 then cmp else compare_numbers str1_len str2_len)"

text \<open>
  \<^verbatim>\<open>static_cast<int>\<close> of an \<^verbatim>\<open>enum_json_type\<close>, and the matrix \<^verbatim>\<open>type_comparison\<close> row
  by row.
\<close>

fun enum_index :: "enum_json_type \<Rightarrow> nat" where
  "enum_index J_NULL = 0"
| "enum_index J_DECIMAL = 1"
| "enum_index J_INT = 2"
| "enum_index J_UINT = 3"
| "enum_index J_DOUBLE = 4"
| "enum_index J_STRING = 5"
| "enum_index J_OBJECT = 6"
| "enum_index J_ARRAY = 7"
| "enum_index J_BOOLEAN = 8"
| "enum_index J_DATE = 9"
| "enum_index J_TIME = 10"
| "enum_index J_DATETIME = 11"
| "enum_index J_TIMESTAMP = 12"
| "enum_index J_OPAQUE = 13"
| "enum_index J_ERROR = 14"

definition type_comparison :: "int list list" where
  "type_comparison =
     [[0, -1, -1, -1, -1, -1, -1, -1, -1, -1, -1, -1, -1, -1, -1],
      [1,  0,  0,  0,  0, -1, -1, -1, -1, -1, -1, -1, -1, -1, -1],
      [1,  0,  0,  0,  0, -1, -1, -1, -1, -1, -1, -1, -1, -1, -1],
      [1,  0,  0,  0,  0, -1, -1, -1, -1, -1, -1, -1, -1, -1, -1],
      [1,  0,  0,  0,  0, -1, -1, -1, -1, -1, -1, -1, -1, -1, -1],
      [1,  1,  1,  1,  1,  0, -1, -1, -1, -1, -1, -1, -1, -1, -1],
      [1,  1,  1,  1,  1,  1,  0, -1, -1, -1, -1, -1, -1, -1, -1],
      [1,  1,  1,  1,  1,  1,  1,  0, -1, -1, -1, -1, -1, -1, -1],
      [1,  1,  1,  1,  1,  1,  1,  1,  0, -1, -1, -1, -1, -1, -1],
      [1,  1,  1,  1,  1,  1,  1,  1,  1,  0, -1, -1, -1, -1, -1],
      [1,  1,  1,  1,  1,  1,  1,  1,  1,  1,  0, -1, -1, -1, -1],
      [1,  1,  1,  1,  1,  1,  1,  1,  1,  1,  1,  0,  0, -1, -1],
      [1,  1,  1,  1,  1,  1,  1,  1,  1,  1,  1,  0,  0, -1, -1],
      [1,  1,  1,  1,  1,  1,  1,  1,  1,  1,  1,  1,  1,  0, -1],
      [1,  1,  1,  1,  1,  1,  1,  1,  1,  1,  1,  1,  1,  1,  1]]"

text \<open>
  The scalar getters of the wrapper. In the DOM branch the source casts the pointer down
  without a test; on a node of another class the model gives a fixed default.
  \<^verbatim>\<open>get_decimal_data\<close> returns the error flag of \<^verbatim>\<open>convert_from_binary\<close>: \<open>None\<close> here.
  \<open>Json_wrapper_get_datetime\<close> is \<^verbatim>\<open>get_datetime\<close> followed by
  \<^verbatim>\<open>TIME_to_longlong_packed\<close>, the only use the comparison makes of it. Modelled from the
  spec: the packing routines are outside this file; a temporal is its packed value
  (section 3), so unpacking the eight bytes of a binary value and packing them again gives
  \<^verbatim>\<open>sint8korr\<close> of the bytes.
\<close>

definition Json_wrapper_field_type :: "Json_wrapper \<Rightarrow> enum_field_types" where
  "Json_wrapper_field_type w =
     (if m_is_dom w then (case m_dom_value w of Some (Json_opaque t _) \<Rightarrow> t | _ \<Rightarrow> 0)
      else Value_field_type (m_value w))"

definition Json_wrapper_get_data :: "Json_wrapper \<Rightarrow> string" where
  "Json_wrapper_get_data w =
     (if m_is_dom w then
        (case m_dom_value w of
           Some (Json_string s) \<Rightarrow> s
         | Some (Json_opaque _ s) \<Rightarrow> s
         | _ \<Rightarrow> [])
      else Value_get_data (m_value w))"

definition Json_wrapper_get_data_length :: "Json_wrapper \<Rightarrow> nat" where
  "Json_wrapper_get_data_length w =
     (if m_is_dom w then
        (case m_dom_value w of
           Some (Json_string s) \<Rightarrow> length s
         | Some (Json_opaque _ s) \<Rightarrow> length s
         | _ \<Rightarrow> 0)
      else Value_get_data_length (m_value w))"

definition Json_wrapper_get_decimal_data ::
    "library_functions \<Rightarrow> Json_wrapper \<Rightarrow> my_decimal option" where
  "Json_wrapper_get_decimal_data lib w =
     (if m_is_dom w then
        (case m_dom_value w of
           Some (Json_decimal d) \<Rightarrow> Some d
         | _ \<Rightarrow> Some (My_decimal False 0 0))
      else convert_from_binary (binary2my_decimal lib) (Value_get_data (m_value w)))"

definition Json_wrapper_get_double :: "Json_wrapper \<Rightarrow> double" where
  "Json_wrapper_get_double w =
     (if m_is_dom w then (case m_dom_value w of Some (Json_double d) \<Rightarrow> d | _ \<Rightarrow> double_zero)
      else Value_get_double (m_value w))"

definition Json_wrapper_get_int :: "Json_wrapper \<Rightarrow> longlong" where
  "Json_wrapper_get_int w =
     (if m_is_dom w then (case m_dom_value w of Some (Json_int i) \<Rightarrow> i | _ \<Rightarrow> 0)
      else Value_get_int64 (m_value w))"

definition Json_wrapper_get_uint :: "Json_wrapper \<Rightarrow> ulonglong" where
  "Json_wrapper_get_uint w =
     (if m_is_dom w then (case m_dom_value w of Some (Json_uint i) \<Rightarrow> i | _ \<Rightarrow> 0)
      else Value_get_uint64 (m_value w))"

definition Json_wrapper_get_datetime :: "Json_wrapper \<Rightarrow> longlong" where
  "Json_wrapper_get_datetime w =
     (if m_is_dom w then (case m_dom_value w of Some (Json_datetime t _) \<Rightarrow> t | _ \<Rightarrow> 0)
      else sint8korr (Value_get_data (m_value w)))"

definition Json_wrapper_get_boolean :: "Json_wrapper \<Rightarrow> bool" where
  "Json_wrapper_get_boolean w =
     (if m_is_dom w then (case m_dom_value w of Some (Json_boolean b) \<Rightarrow> b | _ \<Rightarrow> False)
      else Value_type (m_value w) = LITERAL_TRUE)"

text \<open>
  The size of the tree under a wrapper, the measure of the recursions below.
\<close>

definition wrapper_size :: "Json_wrapper \<Rightarrow> nat" where
  "wrapper_size w =
     (if m_is_dom w then (case m_dom_value w of Some d \<Rightarrow> Suc (size d) | None \<Rightarrow> 1)
      else Suc (size (m_value w)))"

text \<open>
  \<^verbatim>\<open>Json_wrapper::compare\<close>. The loop over the array cells is \<open>compare_elements\<close> on the
  first \<open>min_size\<close> cells of both arrays, the loop over the two object iterators is
  \<open>compare_members\<close>. The assertions on \<^verbatim>\<open>J_ERROR\<close> are debug-only and the model goes
  on as a release build does. The final \<^verbatim>\<open>return 1\<close> after \<^verbatim>\<open>DBUG_ASSERT(false)\<close> is the
  value of every branch the switch leaves with \<^verbatim>\<open>break\<close>. If the second iterator ran out
  before the first (it cannot, the lengths being equal) the source would read past its end;
  the model stops with 0.
\<close>

function (sequential) compare :: "library_functions \<Rightarrow> Json_wrapper \<Rightarrow> Json_wrapper \<Rightarrow> int"
  and compare_elements ::
    "library_functions \<Rightarrow> Json_wrapper list \<Rightarrow> Json_wrapper list \<Rightarrow> int"
  and compare_members ::
    "library_functions \<Rightarrow> (string \<times> Json_wrapper) list \<Rightarrow> (string \<times> Json_wrapper) list \<Rightarrow> int"
where
  "compare lib this other =
     (let this_type = Json_wrapper_type this;
          other_type = Json_wrapper_type other;
          cmp = type_comparison ! enum_index this_type ! enum_index other_type
      in if cmp \<noteq> 0 then cmp
         else
           (case this_type of
              J_ARRAY \<Rightarrow>
                (let size_a = Json_wrapper_length this;
                     size_b = Json_wrapper_length other;
                     min_size = min size_a size_b;
                     cmp = compare_elements lib
                             (map (Json_wrapper_index this) [0..<min_size])
                             (map (Json_wrapper_index other) [0..<min_size])
                 in if cmp \<noteq> 0 then cmp else compare_numbers size_a size_b)
            | J_OBJECT \<Rightarrow>
                (let cmp = compare_numbers (Json_wrapper_length this) (Json_wrapper_length other)
                 in if cmp \<noteq> 0 then cmp
                    else compare_members lib (object_iterator this) (object_iterator other))
            | J_STRING \<Rightarrow>
                compare_json_strings lib
                  (Json_wrapper_get_data this) (Json_wrapper_get_data_length this)
                  (Json_wrapper_get_data other) (Json_wrapper_get_data_length other)
            | J_INT \<Rightarrow>
                (case other_type of
                   J_INT \<Rightarrow>
                     compare_numbers (sint (Json_wrapper_get_int this))
                       (sint (Json_wrapper_get_int other))
                 | J_UINT \<Rightarrow>
                     compare_json_int_uint (Json_wrapper_get_int this) (Json_wrapper_get_uint other)
                 | J_DOUBLE \<Rightarrow>
                     - compare_json_double_int lib (Json_wrapper_get_double other)
                         (Json_wrapper_get_int this)
                 | J_DECIMAL \<Rightarrow>
                     (case Json_wrapper_get_decimal_data lib other of
                        None \<Rightarrow> 1
                      | Some b_dec \<Rightarrow> - compare_json_decimal_int b_dec (Json_wrapper_get_int this))
                 | _ \<Rightarrow> 1)
            | J_UINT \<Rightarrow>
                (case other_type of
                   J_UINT \<Rightarrow>
                     compare_numbers (uint (Json_wrapper_get_uint this))
                       (uint (Json_wrapper_get_uint other))
                 | J_INT \<Rightarrow>
                     - compare_json_int_uint (Json_wrapper_get_int other) (Json_wrapper_get_uint this)
                 | J_DOUBLE \<Rightarrow>
                     - compare_json_double_uint lib (Json_wrapper_get_double other)
                         (Json_wrapper_get_uint this)
                 | J_DECIMAL \<Rightarrow>
                     (case Json_wrapper_get_decimal_data lib other of
                        None \<Rightarrow> 1
                      | Some b_dec \<Rightarrow> - compare_json_decimal_uint b_dec (Json_wrapper_get_uint this))
                 | _ \<Rightarrow> 1)
            | J_DOUBLE \<Rightarrow>
                (case other_type of
                   J_DOUBLE \<Rightarrow>
                     compare_numbers_double (Json_wrapper_get_double this)
                       (Json_wrapper_get_double other)
                 | J_INT \<Rightarrow>
                     compare_json_double_int lib (Json_wrapper_get_double this)
                       (Json_wrapper_get_int other)
                 | J_UINT \<Rightarrow>
                     compare_json_double_uint lib (Json_wrapper_get_double this)
                       (Json_wrapper_get_uint other)
                 | J_DECIMAL \<Rightarrow>
                     (case Json_wrapper_get_decimal_data lib other of
                        None \<Rightarrow> 1
                      | Some other_dec \<Rightarrow>
                          - compare_json_decimal_double lib other_dec (Json_wrapper_get_double this))
                 | _ \<Rightarrow> 1)
            | J_DECIMAL \<Rightarrow>
                (case Json_wrapper_get_decimal_data lib this of
                   None \<Rightarrow> 1
                 | Some a_dec \<Rightarrow>
                     (case other_type of
                        J_DECIMAL \<Rightarrow>
                          (case Json_wrapper_get_decimal_data lib other of
                             None \<Rightarrow> 1
                           | Some b_dec \<Rightarrow>
                               if my_decimal_is_zero a_dec \<and> my_decimal_is_zero b_dec then 0
                               else my_decimal_cmp a_dec b_dec)
                      | J_INT \<Rightarrow> compare_json_decimal_int a_dec (Json_wrapper_get_int other)
                      | J_UINT \<Rightarrow> compare_json_decimal_uint a_dec (Json_wrapper_get_uint other)
                      | J_DOUBLE \<Rightarrow>
                          compare_json_decimal_double lib a_dec (Json_wrapper_get_double other)
                      | _ \<Rightarrow> 1))
            | J_BOOLEAN \<Rightarrow>
                compare_numbers (Json_wrapper_get_boolean this) (Json_wrapper_get_boolean other)
            | J_DATETIME \<Rightarrow>
                compare_numbers (sint (Json_wrapper_get_datetime this))
                  (sint (Json_wrapper_get_datetime other))
            | J_TIMESTAMP \<Rightarrow>
                compare_numbers (sint (Json_wrapper_get_datetime this))
                  (sint (Json_wrapper_get_datetime other))
            | J_TIME \<Rightarrow>
                compare_numbers (sint (Json_wrapper_get_datetime this))
                  (sint (Json_wrapper_get_datetime other))
            | J_DATE \<Rightarrow>
                compare_numbers (sint (Json_wrapper_get_datetime this))
                  (sint (Json_wrapper_get_datetime other))
            | J_OPAQUE \<Rightarrow>
                (let cmp = compare_numbers (Json_wrapper_field_type this)
                             (Json_wrapper_field_type other)
                 in if cmp = 0 then
                      compare_json_strings lib
                        (Json_wrapper_get_data this) (Json_wrapper_get_data_length this)
                        (Json_wrapper_get_data other) (Json_wrapper_get_data_length other)
                    else cmp)
            | J_NULL \<Rightarrow> 0
            | J_ERROR \<Rightarrow> 1))"
| "compare_elements lib (a # as) (b # bs) =
     (let cmp = compare lib a b in if cmp \<noteq> 0 then cmp else compare_elements lib as bs)"
| "compare_elements lib [] bs = 0"
| "compare_elements lib (a # as) [] = 0"
| "compare_members lib (elt1 # rest1) (elt2 # rest2) =
     (let cmp = compare_json_strings lib (fst elt1) (length (fst elt1)) (fst elt2) (length (fst elt2))
      in if cmp \<noteq> 0 then cmp
         else (let cmp = compare lib (snd elt1) (snd elt2)
               in if cmp \<noteq> 0 then cmp else compare_members lib rest1 rest2))"
| "compare_members lib [] rest2 = 0"
| "compare_members lib (elt1 # rest1) [] = 0"
  by pat_completeness auto


termination compare
proof -
  have nth_sum: "n \<le> length v \<Longrightarrow>
      sum_list (map (\<lambda>i. Suc (f (v ! i))) [0..<n]) = size_list f (take n v)"
    for n and v :: "'a list" and f
  proof (induction n)
    case 0
    show ?case by simp
  next
    case (Suc n)
    then show ?case by (simp add: take_Suc_conv_app_nth)
  qed
  have take_le: "size_list f (take n v) \<le> size_list f v" for n and v :: "'a list" and f
  proof -
    have "size_list f v = size_list f (take n v @ drop n v)" by simp
    also have "\<dots> = size_list f (take n v) + size_list f (drop n v)"
      by (simp only: size_list_append)
    finally show ?thesis by simp
  qed
  have members_dom: "sum_list (map (\<lambda>kv. Suc (size (snd kv))) m)
      \<le> size_list (size_prod (\<lambda>x. 0) size) m" for m :: "(string \<times> Json_dom) list"
    by (induction m) auto
  have members_val: "sum_list (map (\<lambda>kv. Suc (size (snd kv))) m)
      \<le> size_list (size_prod (\<lambda>x. 0) size) m" for m :: "(string \<times> Value) list"
    by (induction m) auto
  have dom_array: "\<exists>v. d = Json_array v" if "json_type d = J_ARRAY" for d
    using that by (cases d) (auto split: if_splits)
  have dom_object: "\<exists>m. d = Json_object m" if "json_type d = J_OBJECT" for d
    using that by (cases d) (auto split: if_splits)
  have bin_array: "\<exists>sl lg es. m_value w = Value_array sl lg es"
    if "Json_wrapper_type w = J_ARRAY" "\<not> m_is_dom w" for w
    using that
    by (cases "m_value w")
      (auto simp: Json_wrapper_type_def Json_wrapper_empty_def bjson2json_def Let_def
            split: if_splits)
  have bin_object: "\<exists>sl lg ms. m_value w = Value_object sl lg ms"
    if "Json_wrapper_type w = J_OBJECT" "\<not> m_is_dom w" for w
    using that
    by (cases "m_value w")
      (auto simp: Json_wrapper_type_def Json_wrapper_empty_def bjson2json_def Let_def
            split: if_splits)
  have elements: "sum_list (map wrapper_size (map (Json_wrapper_index w) [0..<n])) < wrapper_size w"
    if ty: "J_ARRAY = Json_wrapper_type w" and n: "n \<le> Json_wrapper_length w" for w n
  proof (cases "m_is_dom w")
    case True
    then obtain v where v: "m_dom_value w = Some (Json_array v)"
      using ty [symmetric] dom_array
      by (auto simp: Json_wrapper_type_def Json_wrapper_empty_def split: if_splits option.splits)
    have len: "n \<le> length v"
      using n True v by (simp add: Json_wrapper_length_def Json_wrapper_empty_def)
    have "map wrapper_size (map (Json_wrapper_index w) [0..<n])
          = map (\<lambda>i. Suc (size (v ! i))) [0..<n]"
      using len True v
      by (auto simp: wrapper_size_def Json_wrapper_index_def Json_wrapper_set_alias_def
            Json_wrapper_dom_def)
    then have "sum_list (map wrapper_size (map (Json_wrapper_index w) [0..<n]))
          = sum_list (map (\<lambda>i. Suc (size (v ! i))) [0..<n])"
      by (rule arg_cong)
    also have "\<dots> = size_list size (take n v)"
      by (rule nth_sum [OF len])
    also have "\<dots> \<le> size_list size v" by (rule take_le)
    also have "\<dots> < wrapper_size w" using True v by (simp add: wrapper_size_def)
    finally show ?thesis .
  next
    case False
    then obtain sl lg es where v: "m_value w = Value_array sl lg es"
      using ty [symmetric] bin_array by blast
    have len: "n \<le> length es"
      using n False v
      by (simp add: Json_wrapper_length_def Json_wrapper_empty_def Value_element_count_def)
    have "map wrapper_size (map (Json_wrapper_index w) [0..<n])
          = map (\<lambda>i. Suc (size (es ! i))) [0..<n]"
      using len False v
      by (auto simp: wrapper_size_def Json_wrapper_index_def Json_wrapper_binary_def
            Value_element_def Value_element_count_def)
    then have "sum_list (map wrapper_size (map (Json_wrapper_index w) [0..<n]))
          = sum_list (map (\<lambda>i. Suc (size (es ! i))) [0..<n])"
      by (rule arg_cong)
    also have "\<dots> = size_list size (take n es)"
      by (rule nth_sum [OF len])
    also have "\<dots> \<le> size_list size es" by (rule take_le)
    also have "\<dots> < wrapper_size w" using False v by (simp add: wrapper_size_def)
    finally show ?thesis .
  qed
  have members: "sum_list (map (wrapper_size \<circ> snd) (object_iterator w)) < wrapper_size w"
    if ty: "J_OBJECT = Json_wrapper_type w" for w
  proof (cases "m_is_dom w")
    case True
    then obtain m where m: "m_dom_value w = Some (Json_object m)"
      using ty [symmetric] dom_object
      by (auto simp: Json_wrapper_type_def Json_wrapper_empty_def split: if_splits option.splits)
    have "map (wrapper_size \<circ> snd) (object_iterator w) = map (\<lambda>kv. Suc (size (snd kv))) m"
      using True m
      by (auto simp: wrapper_size_def object_iterator_def Json_wrapper_set_alias_def
            Json_wrapper_dom_def)
    then show ?thesis
      using members_dom [of m] True m by (simp add: wrapper_size_def)
  next
    case False
    then obtain sl lg ms where v: "m_value w = Value_object sl lg ms"
      using ty [symmetric] bin_object by blast
    have "map (wrapper_size \<circ> snd) (object_iterator w) = map (\<lambda>kv. Suc (size (snd kv))) ms"
      using False v
      by (auto simp: wrapper_size_def object_iterator_def Json_wrapper_binary_def)
    then show ?thesis
      using members_val [of ms] False v by (simp add: wrapper_size_def)
  qed
  have positive: "0 < wrapper_size w" for w
    by (simp add: wrapper_size_def split: option.splits)
  show ?thesis
    apply (relation "measure (\<lambda>x. case x of
        Inl (lib, a, b) \<Rightarrow> 2 * wrapper_size a + 1
      | Inr (Inl (lib, xs, ys)) \<Rightarrow> 2 * sum_list (map wrapper_size xs) + 2
      | Inr (Inr (lib, ms, ns)) \<Rightarrow> 2 * sum_list (map (wrapper_size \<circ> snd) ms) + 2)")
    apply simp
    subgoal for lib this other
      using members [of this] by simp
    subgoal for lib this other
      using elements [of this "min (Json_wrapper_length this) (Json_wrapper_length other)"]
      by simp
    apply simp
    subgoal for lib a as b bs using positive [of a] by simp
    apply simp
    subgoal for lib elt1 rest1 elt2 rest2 using positive [of "snd elt1"] by simp
    done
qed

declare compare.simps [simp del]


subsection \<open>Hash keys\<close>

text \<open>
  The type identifiers of the keys.
\<close>

definition JSON_KEY_NULL :: uchar where "JSON_KEY_NULL = 0"
definition JSON_KEY_NUMBER_NEG :: uchar where "JSON_KEY_NUMBER_NEG = 1"
definition JSON_KEY_NUMBER_ZERO :: uchar where "JSON_KEY_NUMBER_ZERO = 2"
definition JSON_KEY_NUMBER_POS :: uchar where "JSON_KEY_NUMBER_POS = 3"
definition JSON_KEY_STRING :: uchar where "JSON_KEY_STRING = 4"
definition JSON_KEY_OBJECT :: uchar where "JSON_KEY_OBJECT = 5"
definition JSON_KEY_ARRAY :: uchar where "JSON_KEY_ARRAY = 6"
definition JSON_KEY_FALSE :: uchar where "JSON_KEY_FALSE = 7"
definition JSON_KEY_TRUE :: uchar where "JSON_KEY_TRUE = 8"
definition JSON_KEY_DATE :: uchar where "JSON_KEY_DATE = 9"
definition JSON_KEY_TIME :: uchar where "JSON_KEY_TIME = 10"
definition JSON_KEY_DATETIME :: uchar where "JSON_KEY_DATETIME = 11"
definition JSON_KEY_OPAQUE :: uchar where "JSON_KEY_OPAQUE = 12"

text \<open>
  Modelled from the spec: \<^verbatim>\<open>int8store\<close> and \<^verbatim>\<open>float8store\<close> are macros from outside this
  file: the eight bytes of the integer, or of the bit pattern of the double, lowest first.
\<close>

definition int8store :: "64 word \<Rightarrow> uchar list" where
  "int8store ll = map (\<lambda>i. unat ll div 256 ^ i mod 256) [0..<8]"

definition double_bits :: "double \<Rightarrow> 64 word" where
  "double_bits d =
     (if sign_bit d then 2 ^ 63 else 0) + of_nat (biased_exponent d) * 2 ^ 52
       + of_nat (fraction d)"

definition float8store :: "double \<Rightarrow> uchar list" where
  "float8store d = int8store (double_bits d)"

text \<open>
  \<^verbatim>\<open>get_datetime_packed\<close>: \<^verbatim>\<open>Json_datetime::to_packed\<close> stores the packed value with
  \<^verbatim>\<open>int8store\<close>; a binary value hands out its eight bytes.
\<close>

definition Json_wrapper_get_datetime_packed :: "Json_wrapper \<Rightarrow> uchar list" where
  "Json_wrapper_get_datetime_packed w =
     (if m_is_dom w then
        (case m_dom_value w of Some (Json_datetime t _) \<Rightarrow> int8store t | _ \<Rightarrow> int8store 0)
      else map uchar_of (take 8 (Value_get_data (m_value w))))"

text \<open>
  \<^verbatim>\<open>Wrapper_hash_key\<close>, with the state \<^verbatim>\<open>m_crc\<close> passed through. Modelled from the spec:
  \<^verbatim>\<open>ha_checksum\<close> is declared outside this file; the spec (section 4.7) asks for a rolling
  64-bit accumulator, and the model takes the 32-bit checksum type of the server. No
  property below depends on this size.
\<close>

definition sizeof_ha_checksum :: nat where
  "sizeof_ha_checksum = 4"

definition add_to_crc :: "ulonglong \<Rightarrow> uchar \<Rightarrow> ulonglong" where
  "add_to_crc m_crc ch =
     (push_bit 8 m_crc + of_nat ch) + drop_bit (8 * sizeof_ha_checksum - 8) m_crc"

definition add_character :: "ulonglong \<Rightarrow> uchar \<Rightarrow> ulonglong" where
  "add_character m_crc ch = add_to_crc m_crc ch"

text \<open>
  \<^verbatim>\<open>add_string\<close> is a loop of \<^verbatim>\<open>add_to_crc\<close> over the bytes; \<open>add_bytes\<close> is that loop
  on a buffer of \<^verbatim>\<open>uchar\<close>.
\<close>

definition add_bytes :: "ulonglong \<Rightarrow> uchar list \<Rightarrow> ulonglong" where
  "add_bytes m_crc str = fold (\<lambda>ch crc. add_to_crc crc ch) str m_crc"

definition add_string :: "ulonglong \<Rightarrow> string \<Rightarrow> nat \<Rightarrow> ulonglong" where
  "add_string m_crc str len = add_bytes m_crc (map uchar_of (take len str))"

definition add_integer :: "ulonglong \<Rightarrow> longlong \<Rightarrow> ulonglong" where
  "add_integer m_crc ll = add_bytes m_crc (int8store ll)"

definition add_double :: "ulonglong \<Rightarrow> double \<Rightarrow> ulonglong" where
  "add_double m_crc d =
     (if double_equal d double_zero then add_character m_crc 0
      else add_bytes m_crc (float8store d))"

text \<open>
  \<^verbatim>\<open>Json_wrapper::make_hash_key\<close>: \<open>hash_val\<close> is the seed \<^verbatim>\<open>*hash_val\<close>, the result
  the final \<^verbatim>\<open>m_crc\<close>. \<open>hash_members\<close> and \<open>hash_elements\<close> are the two loops; each
  child is hashed from the current value of \<^verbatim>\<open>m_crc\<close>.
\<close>

function (sequential) make_hash_key ::
    "library_functions \<Rightarrow> Json_wrapper \<Rightarrow> ulonglong \<Rightarrow> ulonglong"
  and hash_members ::
    "library_functions \<Rightarrow> (string \<times> Json_wrapper) list \<Rightarrow> ulonglong \<Rightarrow> ulonglong"
  and hash_elements :: "library_functions \<Rightarrow> Json_wrapper list \<Rightarrow> ulonglong \<Rightarrow> ulonglong"
where
  "make_hash_key lib w hash_val =
     (case Json_wrapper_type w of
        J_NULL \<Rightarrow> add_character hash_val JSON_KEY_NULL
      | J_DECIMAL \<Rightarrow>
          (case Json_wrapper_get_decimal_data lib w of
             None \<Rightarrow> hash_val
           | Some dec \<Rightarrow> add_double hash_val (decimal2double dec))
      | J_INT \<Rightarrow> add_double hash_val (longlong2double (Json_wrapper_get_int w))
      | J_UINT \<Rightarrow> add_double hash_val (ulonglong2double (Json_wrapper_get_uint w))
      | J_DOUBLE \<Rightarrow> add_double hash_val (Json_wrapper_get_double w)
      | J_STRING \<Rightarrow>
          add_string hash_val (Json_wrapper_get_data w) (Json_wrapper_get_data_length w)
      | J_OPAQUE \<Rightarrow>
          add_string hash_val (Json_wrapper_get_data w) (Json_wrapper_get_data_length w)
      | J_OBJECT \<Rightarrow>
          hash_members lib (object_iterator w) (add_character hash_val JSON_KEY_OBJECT)
      | J_ARRAY \<Rightarrow>
          hash_elements lib (map (Json_wrapper_index w) [0..<Json_wrapper_length w])
            (add_character hash_val JSON_KEY_ARRAY)
      | J_BOOLEAN \<Rightarrow>
          add_character hash_val
            (if Json_wrapper_get_boolean w then JSON_KEY_TRUE else JSON_KEY_FALSE)
      | J_DATE \<Rightarrow> add_bytes hash_val (Json_wrapper_get_datetime_packed w)
      | J_TIME \<Rightarrow> add_bytes hash_val (Json_wrapper_get_datetime_packed w)
      | J_DATETIME \<Rightarrow> add_bytes hash_val (Json_wrapper_get_datetime_packed w)
      | J_TIMESTAMP \<Rightarrow> add_bytes hash_val (Json_wrapper_get_datetime_packed w)
      | J_ERROR \<Rightarrow> hash_val)"
| "hash_members lib [] m_crc = m_crc"
| "hash_members lib (pair # rest) m_crc =
     (let crc1 = add_string m_crc (fst pair) (length (fst pair));
          t = crc1
      in hash_members lib rest (add_integer crc1 (make_hash_key lib (snd pair) t)))"
| "hash_elements lib [] m_crc = m_crc"
| "hash_elements lib (elt # rest) m_crc =
     (let t = m_crc
      in hash_elements lib rest (add_integer m_crc (make_hash_key lib elt t)))"
  by pat_completeness auto

termination make_hash_key
proof -
  have nth_sum: "n \<le> length v \<Longrightarrow>
      sum_list (map (\<lambda>i. Suc (f (v ! i))) [0..<n]) = size_list f (take n v)"
    for n and v :: "'a list" and f
  proof (induction n)
    case 0
    show ?case by simp
  next
    case (Suc n)
    then show ?case by (simp add: take_Suc_conv_app_nth)
  qed
  have take_le: "size_list f (take n v) \<le> size_list f v" for n and v :: "'a list" and f
  proof -
    have "size_list f v = size_list f (take n v @ drop n v)" by simp
    also have "\<dots> = size_list f (take n v) + size_list f (drop n v)"
      by (simp only: size_list_append)
    finally show ?thesis by simp
  qed
  have members_dom: "sum_list (map (\<lambda>kv. Suc (size (snd kv))) m)
      \<le> size_list (size_prod (\<lambda>x. 0) size) m" for m :: "(string \<times> Json_dom) list"
    by (induction m) auto
  have members_val: "sum_list (map (\<lambda>kv. Suc (size (snd kv))) m)
      \<le> size_list (size_prod (\<lambda>x. 0) size) m" for m :: "(string \<times> Value) list"
    by (induction m) auto
  have dom_array: "\<exists>v. d = Json_array v" if "json_type d = J_ARRAY" for d
    using that by (cases d) (auto split: if_splits)
  have dom_object: "\<exists>m. d = Json_object m" if "json_type d = J_OBJECT" for d
    using that by (cases d) (auto split: if_splits)
  have bin_array: "\<exists>sl lg es. m_value w = Value_array sl lg es"
    if "Json_wrapper_type w = J_ARRAY" "\<not> m_is_dom w" for w
    using that
    by (cases "m_value w")
      (auto simp: Json_wrapper_type_def Json_wrapper_empty_def bjson2json_def Let_def
            split: if_splits)
  have bin_object: "\<exists>sl lg ms. m_value w = Value_object sl lg ms"
    if "Json_wrapper_type w = J_OBJECT" "\<not> m_is_dom w" for w
    using that
    by (cases "m_value w")
      (auto simp: Json_wrapper_type_def Json_wrapper_empty_def bjson2json_def Let_def
            split: if_splits)
  have elements: "sum_list (map wrapper_size (map (Json_wrapper_index w) [0..<n])) < wrapper_size w"
    if ty: "J_ARRAY = Json_wrapper_type w" and n: "n \<le> Json_wrapper_length w" for w n
  proof (cases "m_is_dom w")
    case True
    then obtain v where v: "m_dom_value w = Some (Json_array v)"
      using ty [symmetric] dom_array
      by (auto simp: Json_wrapper_type_def Json_wrapper_empty_def split: if_splits option.splits)
    have len: "n \<le> length v"
      using n True v by (simp add: Json_wrapper_length_def Json_wrapper_empty_def)
    have "map wrapper_size (map (Json_wrapper_index w) [0..<n])
          = map (\<lambda>i. Suc (size (v ! i))) [0..<n]"
      using len True v
      by (auto simp: wrapper_size_def Json_wrapper_index_def Json_wrapper_set_alias_def
            Json_wrapper_dom_def)
    then have "sum_list (map wrapper_size (map (Json_wrapper_index w) [0..<n]))
          = sum_list (map (\<lambda>i. Suc (size (v ! i))) [0..<n])"
      by (rule arg_cong)
    also have "\<dots> = size_list size (take n v)"
      by (rule nth_sum [OF len])
    also have "\<dots> \<le> size_list size v" by (rule take_le)
    also have "\<dots> < wrapper_size w" using True v by (simp add: wrapper_size_def)
    finally show ?thesis .
  next
    case False
    then obtain sl lg es where v: "m_value w = Value_array sl lg es"
      using ty [symmetric] bin_array by blast
    have len: "n \<le> length es"
      using n False v
      by (simp add: Json_wrapper_length_def Json_wrapper_empty_def Value_element_count_def)
    have "map wrapper_size (map (Json_wrapper_index w) [0..<n])
          = map (\<lambda>i. Suc (size (es ! i))) [0..<n]"
      using len False v
      by (auto simp: wrapper_size_def Json_wrapper_index_def Json_wrapper_binary_def
            Value_element_def Value_element_count_def)
    then have "sum_list (map wrapper_size (map (Json_wrapper_index w) [0..<n]))
          = sum_list (map (\<lambda>i. Suc (size (es ! i))) [0..<n])"
      by (rule arg_cong)
    also have "\<dots> = size_list size (take n es)"
      by (rule nth_sum [OF len])
    also have "\<dots> \<le> size_list size es" by (rule take_le)
    also have "\<dots> < wrapper_size w" using False v by (simp add: wrapper_size_def)
    finally show ?thesis .
  qed
  have members: "sum_list (map (wrapper_size \<circ> snd) (object_iterator w)) < wrapper_size w"
    if ty: "J_OBJECT = Json_wrapper_type w" for w
  proof (cases "m_is_dom w")
    case True
    then obtain m where m: "m_dom_value w = Some (Json_object m)"
      using ty [symmetric] dom_object
      by (auto simp: Json_wrapper_type_def Json_wrapper_empty_def split: if_splits option.splits)
    have "map (wrapper_size \<circ> snd) (object_iterator w) = map (\<lambda>kv. Suc (size (snd kv))) m"
      using True m
      by (auto simp: wrapper_size_def object_iterator_def Json_wrapper_set_alias_def
            Json_wrapper_dom_def)
    then show ?thesis
      using members_dom [of m] True m by (simp add: wrapper_size_def)
  next
    case False
    then obtain sl lg ms where v: "m_value w = Value_object sl lg ms"
      using ty [symmetric] bin_object by blast
    have "map (wrapper_size \<circ> snd) (object_iterator w) = map (\<lambda>kv. Suc (size (snd kv))) ms"
      using False v
      by (auto simp: wrapper_size_def object_iterator_def Json_wrapper_binary_def)
    then show ?thesis
      using members_val [of ms] False v by (simp add: wrapper_size_def)
  qed
  have positive: "0 < wrapper_size w" for w
    by (simp add: wrapper_size_def split: option.splits)
  show ?thesis
    apply (relation "measure (\<lambda>x. case x of
        Inl (lib, w, s) \<Rightarrow> 2 * wrapper_size w + 1
      | Inr (Inl (lib, ms, s)) \<Rightarrow> 2 * sum_list (map (wrapper_size \<circ> snd) ms) + 2
      | Inr (Inr (lib, xs, s)) \<Rightarrow> 2 * sum_list (map wrapper_size xs) + 2)")
    apply simp
    subgoal for lib w hash_val
      using members [of w] by simp
    subgoal for lib w hash_val
      using elements [of w "Json_wrapper_length w"] by simp
    subgoal for lib pair rest m_crc using positive [of "snd pair"] by simp
    subgoal for lib pair rest m_crc using positive [of "snd pair"] by simp
    subgoal for lib elt rest m_crc using positive [of elt] by simp
    subgoal for lib elt rest m_crc using positive [of elt] by simp
    done
qed

declare make_hash_key.simps [simp del]

subsection \<open>Notions used in the proofs about comparison and hash keys\<close>

text \<open>
  \<open>round_trips lib d\<close>: turning \<open>d\<close> into a decimal and back gives \<open>d\<close> again,
  whenever \<^verbatim>\<open>double2decimal\<close> reports success.
\<close>

definition round_trips :: "library_functions \<Rightarrow> double \<Rightarrow> bool" where
  "round_trips lib d =
     (case double2decimal lib d of
        (E_DEC_OK, x) \<Rightarrow> double_equal (decimal2double x) d
      | _ \<Rightarrow> True)"

text \<open>
  A double whose fields are in range and which is not a NaN; \<open>magnitude\<close> is the
  absolute value of \<open>double_units\<close>.
\<close>

definition magnitude :: "nat \<Rightarrow> nat \<Rightarrow> int" where
  "magnitude E f = (if E = 0 then int f else (2 ^ 52 + int f) * 2 ^ (E - 1))"

definition double_ok :: "double \<Rightarrow> bool" where
  "double_ok d = (biased_exponent d < 2048 \<and> fraction d < 2 ^ 52 \<and> \<not> isnan d)"

text \<open>
  Well-formed values: no error value inside, every double as above, every decimal payload
  of a binary value decodes, and a temporal payload of a binary value has its eight bytes.
\<close>

fun dom_well_formed :: "Json_dom \<Rightarrow> bool" where
  "dom_well_formed (Json_double d) = double_ok d"
| "dom_well_formed (Json_array v) = (\<forall>x \<in> set v. dom_well_formed x)"
| "dom_well_formed (Json_object m) = (\<forall>kv \<in> set m. dom_well_formed (snd kv))"
| "dom_well_formed _ = True"

fun value_well_formed :: "library_functions \<Rightarrow> Value \<Rightarrow> bool" where
  "value_well_formed lib Value_error = False"
| "value_well_formed lib (Value_double d) = double_ok d"
| "value_well_formed lib (Value_opaque t s) =
     (if t = MYSQL_TYPE_NEWDECIMAL then convert_from_binary (binary2my_decimal lib) s \<noteq> None
      else if t = MYSQL_TYPE_DATE \<or> t = MYSQL_TYPE_TIME \<or> t = MYSQL_TYPE_DATETIME
              \<or> t = MYSQL_TYPE_TIMESTAMP then length s = 8
      else True)"
| "value_well_formed lib (Value_array _ _ es) = (\<forall>x \<in> set es. value_well_formed lib x)"
| "value_well_formed lib (Value_object _ _ ms) = (\<forall>kv \<in> set ms. value_well_formed lib (snd kv))"
| "value_well_formed lib _ = True"

definition well_formed :: "library_functions \<Rightarrow> Json_wrapper \<Rightarrow> bool" where
  "well_formed lib w =
     (if m_is_dom w then (case m_dom_value w of Some d \<Rightarrow> dom_well_formed d | None \<Rightarrow> False)
      else value_well_formed lib (m_value w))"

text \<open>
  The precedence classes of the spec (section 4.6) as ranks, written from the words of the
  spec: \<open>NULL < numeric < STRING < OBJECT < ARRAY < BOOL < DATE < TIME < DATETIME, TIMESTAMP < OPAQUE\<close>.
\<close>

fun precedence :: "enum_json_type \<Rightarrow> nat" where
  "precedence J_NULL = 0"
| "precedence J_DECIMAL = 1"
| "precedence J_INT = 1"
| "precedence J_UINT = 1"
| "precedence J_DOUBLE = 1"
| "precedence J_STRING = 2"
| "precedence J_OBJECT = 3"
| "precedence J_ARRAY = 4"
| "precedence J_BOOLEAN = 5"
| "precedence J_DATE = 6"
| "precedence J_TIME = 7"
| "precedence J_DATETIME = 8"
| "precedence J_TIMESTAMP = 8"
| "precedence J_OPAQUE = 9"
| "precedence J_ERROR = 10"




text \<open>
  \<open>round_trip_pair\<close> asks \<open>round_trips\<close> of the double in a pair made of a DECIMAL and
  a DOUBLE.
\<close>

definition round_trip_pair :: "library_functions \<Rightarrow> Json_wrapper \<Rightarrow> Json_wrapper \<Rightarrow> bool" where
  "round_trip_pair lib a b =
     ((Json_wrapper_type a = J_DECIMAL \<and> Json_wrapper_type b = J_DOUBLE
         \<longrightarrow> round_trips lib (Json_wrapper_get_double b))
      \<and> (Json_wrapper_type a = J_DOUBLE \<and> Json_wrapper_type b = J_DECIMAL
         \<longrightarrow> round_trips lib (Json_wrapper_get_double a)))"

subsection \<open>Notions used in the proofs about the handler\<close>

text \<open>
  A handler that is ready for a value at depth \<open>d\<close>: at the start, or inside an open
  array, or inside an open object after a key that the object does not have yet.
\<close>

definition accepting :: "Rapid_json_handler \<Rightarrow> nat \<Rightarrow> bool" where
  "accepting h d =
     (m_depth h = of_nat d \<and> d \<le> 100 \<and>
      (case m_state h of
         expect_anything \<Rightarrow> m_current_element h = [] \<and> d = 0
       | expect_array_value \<Rightarrow>
           (\<exists>a held outer. m_current_element h = (Json_array a, held) # outer \<and> held \<noteq> Deleted)
       | expect_object_value \<Rightarrow>
           (\<exists>m held outer. m_current_element h = (Json_object m, held) # outer
              \<and> held \<noteq> Deleted \<and> map_find (m_key h) m = None)
       | _ \<Rightarrow> False))"

text \<open>The handler after a whole value has been placed, and how the value is held.\<close>

definition seen :: "Rapid_json_handler \<Rightarrow> Json_dom \<Rightarrow> Rapid_json_handler" where
  "seen h v = (case seeing_value h v of Inr (h', held) \<Rightarrow> h' | Inl f \<Rightarrow> h)"

definition held_as :: "Rapid_json_handler \<Rightarrow> attachment" where
  "held_as h =
     (case m_state h of
        expect_anything \<Rightarrow> At_root
      | expect_array_value \<Rightarrow> In_array
      | _ \<Rightarrow> In_object (m_key h))"

text \<open>
  A text passes when, from any ready handler, its events either run as if the finished
  value had been seen at once (the depth permitting), or stop with the depth error.
\<close>

definition passes :: "(string \<Rightarrow> double \<times> bool) \<Rightarrow> json_text \<Rightarrow> bool" where
  "passes s doc =
     (\<forall>h d rest i. accepting h d \<longrightarrow>
        (if d + text_depth doc \<le> 100
         then \<exists>v k. run_events s h (events_of doc @ rest) i =
                 run_events s ((seen h v)\<lparr>m_key := k\<rparr>) rest (i + length (events_of doc))
         else \<exists>n. run_events s h (events_of doc @ rest) i = Inl (n, Document_too_deep)))"

text \<open>The text of \<open>n + 1\<close> arrays nested in each other.\<close>

fun nested_arrays :: "nat \<Rightarrow> json_text" where
  "nested_arrays 0 = Text_array []"
| "nested_arrays (Suc n) = Text_array [nested_arrays n]"

section \<open>Properties\<close>

subsection \<open>Keys and the member map\<close>

lemma uchar_of_inj: "uchar_of x = uchar_of y \<longleftrightarrow> x = y"
  by (simp add: uchar_of_def)

lemma memcmp_refl: "memcmp_sign a a n = 0"
proof (induction a arbitrary: n)
  case Nil
  then show ?case by simp
next
  case (Cons x xs)
  then show ?case by (cases n) simp_all
qed

lemma memcmp_antisym: "memcmp_sign b a n = - memcmp_sign a b n"
  by (induction a b n rule: memcmp_sign.induct) (auto simp: uchar_of_inj)

lemma memcmp_eq_0: "length a = n \<Longrightarrow> length b = n \<Longrightarrow> memcmp_sign a b n = 0 \<Longrightarrow> a = b"
  by (induction a b n rule: memcmp_sign.induct) (auto simp: uchar_of_inj split: if_splits)


lemma memcmp_trans:
  "length a = n \<Longrightarrow> length b = n \<Longrightarrow> length c = n \<Longrightarrow>
   memcmp_sign a b n < 0 \<Longrightarrow> memcmp_sign b c n < 0 \<Longrightarrow> memcmp_sign a c n < 0"
proof (induction a b n arbitrary: c rule: memcmp_sign.induct)
  case (1 x xs y ys n)
  then obtain z zs where c: "c = z # zs" by (cases c) auto
  with 1 show ?case by (auto simp: uchar_of_inj split: if_splits)
qed auto

lemma key_less_irrefl: "\<not> Json_key_comparator k k"
  by (simp add: Json_key_comparator_def memcmp_refl)

lemma key_less_asym: "Json_key_comparator a b \<Longrightarrow> \<not> Json_key_comparator b a"
  using memcmp_antisym [of b a "length a"]
  by (auto simp: Json_key_comparator_def split: if_splits)

lemma key_less_trans:
  assumes ab: "Json_key_comparator a b" and bc: "Json_key_comparator b c"
  shows "Json_key_comparator a c"
proof (cases "length a = length b \<and> length b = length c")
  case True
  define n where "n = length a"
  have la: "length a = n" and lb: "length b = n" and lc: "length c = n"
    using True by (simp_all add: n_def)
  from ab la lb have 1: "memcmp_sign a b n < 0" by (simp add: Json_key_comparator_def)
  from bc lb lc have 2: "memcmp_sign b c n < 0" by (simp add: Json_key_comparator_def)
  from la lb lc 1 2 have "memcmp_sign a c n < 0" by (rule memcmp_trans)
  with la lc show ?thesis by (simp add: Json_key_comparator_def)
next
  case False
  with ab bc have "length a < length c"
    by (auto simp: Json_key_comparator_def split: if_splits)
  then show ?thesis by (simp add: Json_key_comparator_def)
qed

lemma key_equiv_iff: "key_equiv a b \<longleftrightarrow> a = b"
proof
  assume e: "key_equiv a b"
  define n where "n = length a"
  from e have la: "length a = n" and lb: "length b = n"
    by (auto simp: n_def key_equiv_def Json_key_comparator_def split: if_splits)
  from e la lb have "\<not> memcmp_sign a b n < 0" "\<not> memcmp_sign b a n < 0"
    by (auto simp: key_equiv_def Json_key_comparator_def)
  with memcmp_antisym [of b a n] have "memcmp_sign a b n = 0" by simp
  with la lb show "a = b" by (rule memcmp_eq_0)
next
  assume "a = b" then show "key_equiv a b" by (simp add: key_equiv_def key_less_irrefl)
qed

lemma map_find_Some_key: "map_find key m = Some v \<Longrightarrow> (key, v) \<in> set m"
  by (induction m) (auto simp: key_equiv_iff split: if_splits)

lemma map_insert_present:
  "map_sorted m \<Longrightarrow> map_find key m = Some v0 \<Longrightarrow> map_insert key v m = (m, False)"
proof (induction m)
  case Nil
  then show ?case by simp
next
  case (Cons kv rest)
  obtain k v' where kv: "kv = (k, v')" by (cases kv)
  show ?case
  proof (cases "key_equiv key k")
    case True
    then show ?thesis by (simp add: kv key_equiv_def)
  next
    case False
    with Cons.prems kv have f: "map_find key rest = Some v0" by simp
    then have "(key, v0) \<in> set rest" by (rule map_find_Some_key)
    then have "key \<in> set (map fst rest)" by force
    with Cons.prems kv have lt: "Json_key_comparator k key" by (auto simp: map_sorted_def)
    then have "\<not> Json_key_comparator key k" by (rule key_less_asym)
    moreover from Cons.prems kv have "map_sorted rest" by (simp add: map_sorted_def)
    ultimately show ?thesis using Cons.IH f lt by (simp add: kv)
  qed
qed

subsection \<open>Object insertion (C6)\<close>

text \<open>
  C6. For every object (\<open>this\<close>, a member map in key order), key \<open>k\<close> and value \<open>v\<close>: if
  \<open>k\<close> is already present in the object, then \<^verbatim>\<open>add_alias(k, v)\<close> returns success (the
  error flag is false) and leaves the object as it was, so the value stored under \<open>k\<close> is kept, \<open>v\<close> is
  dropped, and the key set and every other mapping are the same before and after.
\<close>

theorem add_alias_existing_key:
  assumes "map_sorted this" and "Json_object_get this k = Some old"
  shows "Json_object_add_alias this k (Some v) = (False, this)
         \<and> Json_object_get (snd (Json_object_add_alias this k (Some v))) k = Some old"
  using assms map_insert_present [of this k old v]
  by (simp add: Json_object_add_alias_def Json_object_get_def)

theorem add_alias_existing_key_witness:
  "map_sorted [(''a'', Json_int 1), (''bb'', Json_null)]
   \<and> Json_object_get [(''a'', Json_int 1), (''bb'', Json_null)] ''a'' = Some (Json_int 1)
   \<and> Json_object_add_alias [(''a'', Json_int 1), (''bb'', Json_null)] ''a'' (Some (Json_int 2))
       = (False, [(''a'', Json_int 1), (''bb'', Json_null)])"
proof -
  have s: "map_sorted [(''a'', Json_int 1), (''bb'', Json_null)]"
    by (simp add: map_sorted_def Json_key_comparator_def)
  have g: "Json_object_get [(''a'', Json_int 1), (''bb'', Json_null)] ''a'' = Some (Json_int 1)"
    by (simp add: Json_object_get_def key_equiv_iff)
  from add_alias_existing_key [OF s g, of "Json_int 2"] s g show ?thesis by simp
qed

subsection \<open>Merging (C5)\<close>

lemma Json_array_consume_append: "Json_array_consume this other = (False, this @ other)"
  by (induction other arbitrary: this)
     (simp_all add: Json_array_append_alias_def Json_array_insert_alias_def)

lemma key_total: "\<not> Json_key_comparator a b \<Longrightarrow> \<not> Json_key_comparator b a \<Longrightarrow> a = b"
  using key_equiv_iff [of a b] by (simp add: key_equiv_def)

lemma merge_never_fails:
  "merge_doms left right \<noteq> None"
  "\<not> fst (Json_object_consume this_map other_map)"
proof (induction left right and this_map other_map rule: merge_doms_Json_object_consume.induct)
  case (1 left right)
  show ?case
  proof (cases "json_type (make_mergeable left) = J_ARRAY \<or> json_type (make_mergeable right) = J_ARRAY")
    case True
    then show ?thesis by (auto simp: merge_doms.simps Let_def Json_array_consume_append)
  next
    case False
    with 1 [OF refl refl refl refl] show ?thesis
      by (auto simp: merge_doms.simps Let_def split: prod.splits bool.splits)
  qed
next
  case (2 this_map)
  then show ?case by simp
next
  case (3 this_map key val other_map)
  then show ?case
    by (auto simp: Json_object_add_alias_def split: prod.splits option.splits bool.splits)
qed


lemma merge_doms_objects:
  "merge_doms (Json_object l) (Json_object r) = Some (Json_object (snd (Json_object_consume l r)))"
  using merge_never_fails(2) [of l r]
  by (auto simp: merge_doms.simps make_mergeable_def split: prod.splits bool.splits)

lemma merge_doms_arrays:
  "\<not> (json_type left = J_OBJECT \<and> json_type right = J_OBJECT) \<Longrightarrow>
   merge_doms left right = Some (Json_array (spread left @ spread right))"
  by (cases left; cases right)
     (simp_all add: merge_doms.simps make_mergeable_def wrap_in_array_def Json_array_consume_append spread_def
        Json_array_append_alias_def Json_array_insert_alias_def)

lemma map_find_None_iff: "map_find key m = None \<longleftrightarrow> key \<notin> fst ` set m"
proof (induction m)
  case Nil
  then show ?case by simp
next
  case (Cons kv m)
  obtain k v where kv: "kv = (k, v)" by (cases kv)
  from Cons show ?case by (auto simp: kv key_equiv_iff)
qed

lemma map_find_insert_new:
  "map_find key m = None \<Longrightarrow>
   map_find k (fst (map_insert key v m)) = (if k = key then Some v else map_find k m)"
proof (induction m)
  case Nil
  then show ?case by (simp add: key_equiv_iff)
next
  case (Cons kv m)
  obtain k' v' where kv: "kv = (k', v')" by (cases kv)
  from Cons.prems have ne: "key \<noteq> k'" and rest: "map_find key m = None"
    by (auto simp: kv key_equiv_iff split: if_splits)
  show ?case
  proof (cases "Json_key_comparator key k'")
    case True
    then show ?thesis using ne by (simp add: kv key_equiv_iff)
  next
    case False
    with ne have "Json_key_comparator k' key" using key_total by blast
    with False Cons.IH [OF rest] ne show ?thesis
      by (auto simp: kv key_equiv_iff split: prod.splits)
  qed
qed

lemma map_find_assign:
  "map_find key m = Some v0 \<Longrightarrow>
   map_find k (map_assign key v m) = (if k = key then Some v else map_find k m)"
  by (induction m) (auto simp: key_equiv_iff split: if_splits)

lemma map_fst_assign: "map fst (map_assign key v m) = map fst m"
proof (induction m)
  case Nil
  then show ?case by simp
next
  case (Cons kv m)
  obtain k v' where kv: "kv = (k, v')" by (cases kv)
  from Cons show ?case by (simp add: kv)
qed

lemma keys_map_insert: "fst ` set (fst (map_insert key v m)) = insert key (fst ` set m)"
proof (induction m)
  case Nil
  then show ?case by simp
next
  case (Cons kv m)
  obtain k v' where kv: "kv = (k, v')" by (cases kv)
  obtain m' ins where mi: "map_insert key v m = (m', ins)" by (cases "map_insert key v m")
  with Cons have IH: "fst ` set m' = insert key (fst ` set m)" by simp
  consider "Json_key_comparator key k"
    | "\<not> Json_key_comparator key k" "Json_key_comparator k key"
    | "key = k" "\<not> Json_key_comparator key k" "\<not> Json_key_comparator k key"
    using key_total by blast
  then show ?case
  proof cases
    case 1
    then show ?thesis by (simp add: kv)
  next
    case 2
    have "fst ` set ((k, v') # m') = insert key (fst ` set ((k, v') # m))"
      using IH by auto
    with 2 show ?thesis by (simp add: kv mi)
  next
    case 3
    then show ?thesis by (simp add: kv)
  qed
qed

lemma map_sorted_insert: "map_sorted m \<Longrightarrow> map_sorted (fst (map_insert key v m))"
proof (induction m)
  case Nil
  then show ?case by (simp add: map_sorted_def)
next
  case (Cons kv m)
  obtain k v' where kv: "kv = (k, v')" by (cases kv)
  from Cons.prems have sm: "map_sorted m" and kall: "\<forall>x \<in> fst ` set m. Json_key_comparator k x"
    by (auto simp: map_sorted_def kv)
  show ?case
  proof (cases "Json_key_comparator key k")
    case True
    with kall have "\<forall>x \<in> fst ` set m. Json_key_comparator key x"
      by (blast intro: key_less_trans)
    with True Cons.prems show ?thesis by (auto simp: map_sorted_def kv)
  next
    case False
    show ?thesis
    proof (cases "Json_key_comparator k key")
      case True
      have "\<forall>x \<in> fst ` set (fst (map_insert key v m)). Json_key_comparator k x"
        using kall True by (simp add: keys_map_insert)
      with Cons.IH [OF sm] False True show ?thesis
        by (auto simp: map_sorted_def kv split: prod.splits)
    next
      case False
      with \<open>\<not> Json_key_comparator key k\<close> Cons.prems show ?thesis by (simp add: kv)
    qed
  qed
qed

lemma map_sorted_assign: "map_sorted m \<Longrightarrow> map_sorted (map_assign key v m)"
  by (simp add: map_sorted_def map_fst_assign)

lemma map_sorted_tail_None:
  "map_sorted ((key, v) # other) \<Longrightarrow> map_find key other = None"
  by (auto simp: map_sorted_def map_find_None_iff key_less_irrefl)

lemma consume_lookup:
  "map_sorted other_map \<Longrightarrow>
   map_find k (snd (Json_object_consume this_map other_map)) =
     (case map_find k this_map of
        None \<Rightarrow> map_find k other_map
      | Some a \<Rightarrow> (case map_find k other_map of None \<Rightarrow> Some a | Some b \<Rightarrow> merge_doms a b))"
proof (induction other_map arbitrary: this_map)
  case Nil
  then show ?case by (simp split: option.splits)
next
  case (Cons kv other)
  obtain key val where kv: "kv = (key, val)" by (cases kv)
  from Cons.prems have so: "map_sorted other" by (simp add: map_sorted_def)
  from Cons.prems have tail: "map_find key other = None"
    using map_sorted_tail_None [of key val other] by (simp add: kv)
  show ?case
  proof (cases "map_find key this_map")
    case None
    then show ?thesis
      using Cons.IH [OF so, of "fst (map_insert key val this_map)"] tail
      by (auto simp: kv Json_object_add_alias_def map_find_insert_new key_equiv_iff
               split: prod.splits option.splits)
  next
    case (Some this_value)
    obtain merged where m: "merge_doms this_value val = Some merged"
      using merge_never_fails(1) [of this_value val] by auto
    show ?thesis
      using Cons.IH [OF so, of "map_assign key merged this_map"] tail Some m
      by (auto simp: kv map_find_assign key_equiv_iff split: option.splits)
  qed
qed

lemma consume_sorted:
  "map_sorted this_map \<Longrightarrow> map_sorted (snd (Json_object_consume this_map other_map))"
proof (induction other_map arbitrary: this_map)
  case Nil
  then show ?case by simp
next
  case (Cons kv other)
  obtain key val where kv: "kv = (key, val)" by (cases kv)
  show ?case
  proof (cases "map_find key this_map")
    case None
    then show ?thesis
      using Cons.IH [OF map_sorted_insert [OF Cons.prems, of key val]]
      by (auto simp: kv Json_object_add_alias_def split: prod.splits)
  next
    case (Some this_value)
    obtain merged where m: "merge_doms this_value val = Some merged"
      using merge_never_fails(1) [of this_value val] by auto
    show ?thesis
      using Cons.IH [OF map_sorted_assign [OF Cons.prems, of key merged]] Some m
      by (simp add: kv)
  qed
qed

text \<open>
  C5. Merging two roots. If both are objects (member maps in key order), the result is an
  object in key order whose member under a key present on both sides is the merge of the
  two values by the same operation, and whose other members are those of the left side
  and those only on the right side. In every other case each side that is not an array is
  wrapped, and the result is the concatenation of the two arrays (\<open>spread\<close> is the
  array a side stands for). Merging \<^verbatim>\<open>{"a":1,"b":{"x":1}}\<close> with
  \<^verbatim>\<open>{"b":{"y":2},"c":3}\<close> gives \<^verbatim>\<open>{"a":1,"b":{"x":1,"y":2},"c":3}\<close>.
\<close>

theorem merge_doms_spec:
  assumes "map_sorted l" and "map_sorted r"
  shows "(\<exists>m. merge_doms (Json_object l) (Json_object r) = Some (Json_object m)
            \<and> map_sorted m
            \<and> (\<forall>k. Json_object_get m k =
                  (case Json_object_get l k of
                     None \<Rightarrow> Json_object_get r k
                   | Some a \<Rightarrow>
                       (case Json_object_get r k of
                          None \<Rightarrow> Some a
                        | Some b \<Rightarrow> merge_doms a b))))
         \<and> (\<not> (json_type left = J_OBJECT \<and> json_type right = J_OBJECT) \<longrightarrow>
              merge_doms left right = Some (Json_array (spread left @ spread right)))
         \<and> merge_doms
              (Json_object [(''a'', Json_int 1), (''b'', Json_object [(''x'', Json_int 1)])])
              (Json_object [(''b'', Json_object [(''y'', Json_int 2)]), (''c'', Json_int 3)])
            = Some (Json_object [(''a'', Json_int 1),
                 (''b'', Json_object [(''x'', Json_int 1), (''y'', Json_int 2)]),
                 (''c'', Json_int 3)])"
proof (intro conjI)
  show "\<exists>m. merge_doms (Json_object l) (Json_object r) = Some (Json_object m)
            \<and> map_sorted m
            \<and> (\<forall>k. Json_object_get m k =
                  (case Json_object_get l k of
                     None \<Rightarrow> Json_object_get r k
                   | Some a \<Rightarrow>
                       (case Json_object_get r k of
                          None \<Rightarrow> Some a
                        | Some b \<Rightarrow> merge_doms a b)))"
    unfolding Json_object_get_def
    using merge_doms_objects [of l r] consume_sorted [OF assms(1), of r]
      consume_lookup [OF assms(2), of _ l]
    by simp
  show "\<not> (json_type left = J_OBJECT \<and> json_type right = J_OBJECT) \<longrightarrow>
          merge_doms left right = Some (Json_array (spread left @ spread right))"
    using merge_doms_arrays [of left right] by blast
  show "merge_doms
          (Json_object [(''a'', Json_int 1), (''b'', Json_object [(''x'', Json_int 1)])])
          (Json_object [(''b'', Json_object [(''y'', Json_int 2)]), (''c'', Json_int 3)])
        = Some (Json_object [(''a'', Json_int 1),
             (''b'', Json_object [(''x'', Json_int 1), (''y'', Json_int 2)]),
             (''c'', Json_int 3)])"
    by code_simp
qed

theorem merge_doms_spec_witness:
  "map_sorted [(''a'', Json_int 1)] \<and> map_sorted [(''a'', Json_int 2), (''b'', Json_null)]
   \<and> (\<exists>m. merge_doms (Json_object [(''a'', Json_int 1)])
              (Json_object [(''a'', Json_int 2), (''b'', Json_null)]) = Some (Json_object m)
          \<and> Json_object_get m ''a'' = Some (Json_array [Json_int 1, Json_int 2])
          \<and> Json_object_get m ''b'' = Some Json_null)
   \<and> merge_doms (Json_int 1) (Json_object []) = Some (Json_array [Json_int 1, Json_object []])"
proof -
  have l: "map_sorted [(''a'', Json_int 1)]"
    by (simp add: map_sorted_def)
  have r: "map_sorted [(''a'', Json_int 2), (''b'', Json_null)]"
    by (simp add: map_sorted_def Json_key_comparator_def uchar_of_def)
  have ab: "''a'' \<noteq> ''b''" by simp
  have m12: "merge_doms (Json_int 1) (Json_int 2) = Some (Json_array [Json_int 1, Json_int 2])"
    by code_simp
  from merge_doms_spec [OF l r, of "Json_int 1" "Json_object []"]
  obtain m where m: "merge_doms (Json_object [(''a'', Json_int 1)])
        (Json_object [(''a'', Json_int 2), (''b'', Json_null)]) = Some (Json_object m)"
      and get: "\<And>k. Json_object_get m k =
                  (case Json_object_get [(''a'', Json_int 1)] k of
                     None \<Rightarrow> Json_object_get [(''a'', Json_int 2), (''b'', Json_null)] k
                   | Some a \<Rightarrow>
                       (case Json_object_get [(''a'', Json_int 2), (''b'', Json_null)] k of
                          None \<Rightarrow> Some a
                        | Some b \<Rightarrow> merge_doms a b))"
      and arr: "merge_doms (Json_int 1) (Json_object [])
                = Some (Json_array (spread (Json_int 1) @ spread (Json_object [])))"
    by auto
  have "Json_object_get m ''a'' = Some (Json_array [Json_int 1, Json_int 2])"
    using get [of "''a''"] m12 by (simp add: Json_object_get_def key_equiv_iff)
  moreover have "Json_object_get m ''b'' = Some Json_null"
    using get [of "''b''"] by (simp add: Json_object_get_def key_equiv_iff)
  ultimately show ?thesis using l r m arr by (simp add: spread_def)
qed

subsection \<open>The empty wrapper (C10)\<close>

text \<open>
  C10. For the wrapper constructed over a null DOM pointer, \<^verbatim>\<open>type()\<close> is the ERROR kind,
  \<^verbatim>\<open>length()\<close> is 0 and \<^verbatim>\<open>depth()\<close> is 0, whatever the session handle and the
  decimal decoder are.
\<close>

theorem empty_wrapper_type_length_depth:
  "Json_wrapper_type (Json_wrapper_dom None) = J_ERROR
   \<and> Json_wrapper_length (Json_wrapper_dom None) = 0
   \<and> Json_wrapper_depth b2d thd (Json_wrapper_dom None) = Some 0"
  by (simp add: Json_wrapper_type_def Json_wrapper_length_def Json_wrapper_depth_def Json_wrapper_empty_def Json_wrapper_dom_def)

subsection \<open>In-place update: the shape of parent and last leg (C1)\<close>

text \<open>
  C1, as the code has it. Take a binary root, a non-empty path, and let the seek for the
  parent (all legs but the last, no auto-wrap) match the binary value \<open>p\<close>. Then
  \<^item> an object parent with a last leg that is not a member leg: the update declines under
    SET (\<open>replace\<close> false) and reports success, not replaced, under REPLACE;
  \<^item> an array parent with a last leg that is not a cell leg: success, not replaced, under
    both SET and REPLACE;
  \<^item> a scalar parent: success, not replaced, under REPLACE; under SET the update declines
    when the last leg is a cell leg, and reports success, not replaced, for any other leg.
  In each case the wrapper and the result buffer are left as they were.
\<close>

theorem attempt_binary_update_mismatched_leg:
  assumes "\<not> m_is_dom this" and "path \<noteq> []"
    and "seek_no_ellipsis this path [] 0 (length path - 1) False True = (False, [p])"
    and "\<not> m_is_dom p"
  shows "(Value_type (m_value p) = OBJECT \<and> get_type (last path) \<noteq> jpl_member \<longrightarrow>
            attempt_binary_update fns this field path new_value replace result =
              Inr \<lparr>wrapper = this, result_buffer = result,
                   partially_updated = replace, replaced_path = False\<rparr>)
         \<and> (Value_type (m_value p) = ARRAY \<and> get_type (last path) \<noteq> jpl_array_cell \<longrightarrow>
            attempt_binary_update fns this field path new_value replace result =
              Inr \<lparr>wrapper = this, result_buffer = result,
                   partially_updated = True, replaced_path = False\<rparr>)
         \<and> (Value_type (m_value p) \<noteq> OBJECT \<and> Value_type (m_value p) \<noteq> ARRAY \<longrightarrow>
            attempt_binary_update fns this field path new_value replace result =
              Inr \<lparr>wrapper = this, result_buffer = result,
                   partially_updated = (replace \<or> get_type (last path) \<noteq> jpl_array_cell),
                   replaced_path = False\<rparr>)"
proof -
  from assms(2) have l: "path ! (length path - 1) = last path"
    by (simp add: last_conv_nth)
  show ?thesis
    using assms l
    unfolding attempt_binary_update_def Let_def
    by (cases "Value_type (m_value p)") simp_all
qed

text \<open>
  The theorem at an object root and the path \<^verbatim>\<open>$[0]\<close> under SET: the parent is the root,
  the leg is a cell leg, and the update declines.
\<close>

theorem attempt_binary_update_mismatched_leg_witness:
  "\<not> m_is_dom (Json_wrapper_binary (Value_object (0, [0, 0, 4, 0]) False []))
   \<and> [Leg_array_cell 0 False] \<noteq> []
   \<and> seek_no_ellipsis (Json_wrapper_binary (Value_object (0, [0, 0, 4, 0]) False []))
        [Leg_array_cell 0 False] [] 0 (length [Leg_array_cell 0 False] - 1) False True
       = (False, [Json_wrapper_binary (Value_object (0, [0, 0, 4, 0]) False [])])
   \<and> attempt_binary_update
        \<lparr>space_needed = (\<lambda>v large. None), has_space = (\<lambda>v pos needed. None),
         update_in_shadow = (\<lambda>v pos nv off needed original destination. None),
         parse_binary = (\<lambda>bytes. Value_error)\<rparr>
        (Json_wrapper_binary (Value_object (0, [0, 0, 4, 0]) False []))
        \<lparr>get_binary = [0, 0, 4, 0]\<rparr>
        [Leg_array_cell 0 False]
        (Json_wrapper_binary Value_literal_null)
        False
        []
      = Inr \<lparr>wrapper = Json_wrapper_binary (Value_object (0, [0, 0, 4, 0]) False []),
             result_buffer = [],
             partially_updated = False, replaced_path = False\<rparr>"
proof -
  let ?w = "Json_wrapper_binary (Value_object (0, [0, 0, 4, 0]) False [])"
  have b: "\<not> m_is_dom ?w" by (simp add: Json_wrapper_binary_def)
  have n: "[Leg_array_cell 0 False] \<noteq> []" by simp
  have s: "seek_no_ellipsis ?w [Leg_array_cell 0 False] [] 0
             (length [Leg_array_cell 0 False] - 1) False True = (False, [?w])"
    by (simp add: seek_no_ellipsis.simps Json_wrapper_binary_def)
  have t: "Value_type (m_value ?w) = OBJECT
           \<and> get_type (last [Leg_array_cell 0 False]) \<noteq> jpl_member"
    by (simp add: Json_wrapper_binary_def)
  from attempt_binary_update_mismatched_leg [OF b n s b] t b n s show ?thesis
    by blast
qed

text \<open>
  The claim as the spec words it fails for an array parent: under SET, the path \<^verbatim>\<open>$.a\<close>
  into an array root does not decline; it reports success, not replaced.
\<close>

theorem attempt_binary_update_array_member_leg_set:
  "attempt_binary_update
     \<lparr>space_needed = (\<lambda>v large. None), has_space = (\<lambda>v pos needed. None),
      update_in_shadow = (\<lambda>v pos nv off needed original destination. None),
      parse_binary = (\<lambda>bytes. Value_error)\<rparr>
     (Json_wrapper_binary (Value_array (0, [0, 0, 4, 0]) False []))
     \<lparr>get_binary = [0, 0, 4, 0]\<rparr>
     [Leg_member ''a'']
     (Json_wrapper_binary Value_literal_null)
     False
     []
   = Inr \<lparr>wrapper = Json_wrapper_binary (Value_array (0, [0, 0, 4, 0]) False []),
          result_buffer = [],
          partially_updated = True, replaced_path = False\<rparr>"
  by (simp add: attempt_binary_update_def seek_no_ellipsis.simps Json_wrapper_binary_def)

subsection \<open>In-place update never changes the length (C2)\<close>

lemma store_bytes_length:
  "store_bytes writes destination = Some destination' \<Longrightarrow>
   length destination' = length destination"
  by (induction writes destination rule: store_bytes.induct) (auto split: if_splits)

text \<open>
  C2. Whenever the in-place update reports success with the path replaced, the resulting
  binary document (the result buffer, which the wrapper then reads through
  \<^verbatim>\<open>parse_binary\<close>) has exactly the byte length of the original binary document, for
  every root, path, new value and result buffer passed in, and whatever the functions of
  the binary format do.
\<close>

theorem attempt_binary_update_keeps_length:
  assumes "attempt_binary_update fns this field path new_value replace result = Inr out"
    and "partially_updated out" and "replaced_path out"
  shows "length (result_buffer out) = length (Value_raw_binary (m_value this))
         \<and> m_value (wrapper out) = parse_binary fns (result_buffer out)"
  using assms
  unfolding attempt_binary_update_def Let_def
  by (auto split: if_splits prod.splits bool.splits sum.splits option.splits enum_type.splits
           dest: store_bytes_length)

text \<open>
  The theorem at the document \<^verbatim>\<open>[1]\<close> and the path \<^verbatim>\<open>$[0]\<close>, with an inlined new
  value (no bytes needed) that is stored as one byte of the entry.
\<close>

theorem attempt_binary_update_keeps_length_witness:
  "attempt_binary_update
     \<lparr>space_needed = (\<lambda>v large. Some 0), has_space = (\<lambda>v pos needed. None),
      update_in_shadow = (\<lambda>v pos nv off needed original destination. Some [(5, 2)]),
      parse_binary = (\<lambda>bytes. Value_array (0, bytes) False [Value_int 2])\<rparr>
     (Json_wrapper_binary (Value_array (0, [1, 0, 7, 0, 5, 1, 0]) False [Value_int 1]))
     \<lparr>get_binary = [1, 0, 7, 0, 5, 1, 0]\<rparr>
     [Leg_array_cell 0 False]
     (Json_wrapper_binary (Value_int 2))
     False
     []
   = Inr \<lparr>wrapper =
            Json_wrapper_binary (Value_array (0, [1, 0, 7, 0, 5, 2, 0]) False [Value_int 2]),
          result_buffer = [1, 0, 7, 0, 5, 2, 0],
          partially_updated = True, replaced_path = True\<rparr>
   \<and> length [1, 0, 7, 0, 5, 2, 0 :: uchar]
       = length (Value_raw_binary (m_value
           (Json_wrapper_binary (Value_array (0, [1, 0, 7, 0, 5, 1, 0]) False [Value_int 1]))))"
proof -
  have e: "attempt_binary_update
     \<lparr>space_needed = (\<lambda>v large. Some 0), has_space = (\<lambda>v pos needed. None),
      update_in_shadow = (\<lambda>v pos nv off needed original destination. Some [(5, 2)]),
      parse_binary = (\<lambda>bytes. Value_array (0, bytes) False [Value_int 2])\<rparr>
     (Json_wrapper_binary (Value_array (0, [1, 0, 7, 0, 5, 1, 0]) False [Value_int 1]))
     \<lparr>get_binary = [1, 0, 7, 0, 5, 1, 0]\<rparr>
     [Leg_array_cell 0 False]
     (Json_wrapper_binary (Value_int 2))
     False
     []
   = Inr \<lparr>wrapper =
            Json_wrapper_binary (Value_array (0, [1, 0, 7, 0, 5, 2, 0]) False [Value_int 2]),
          result_buffer = [1, 0, 7, 0, 5, 2, 0],
          partially_updated = True, replaced_path = True\<rparr>"
    by (simp add: attempt_binary_update_def seek_no_ellipsis.simps Json_wrapper_binary_def
          array_index_def Value_element_count_def)
  from attempt_binary_update_keeps_length [OF e] e show ?thesis by simp
qed

subsection \<open>The depth guard of the text parser (C7)\<close>

lemma check_json_depth_of_nat:
  "d \<le> 100 \<Longrightarrow> check_json_depth (of_nat d + 1) \<longleftrightarrow> d = 100"
proof -
  assume d: "d \<le> 100"
  have "(of_nat d + 1 :: 64 word) = of_nat (Suc d)" by simp
  moreover have "unat (of_nat (Suc d) :: 64 word) = Suc d"
    using d by (simp add: unat_of_nat del: of_nat_Suc)
  ultimately have "unat (of_nat d + 1 :: 64 word) = Suc d" by (simp add: add.commute)
  then show ?thesis
    using d by (auto simp: check_json_depth_def JSON_DOCUMENT_MAX_DEPTH_def word_less_nat_alt)
qed

lemma seeing_value_accepting:
  assumes "accepting h d"
  shows "seeing_value h v =
           (if d = 100 then Inl Document_too_deep else Inr (seen h v, held_as h))"
  using assms check_json_depth_of_nat [of d]
  by (auto simp: accepting_def seeing_value_def seen_def held_as_def
        Json_array_append_alias_def Json_array_insert_alias_def Json_object_add_alias_def
      split: enum_state.splits prod.splits)

lemma seen_anything:
  "m_state h = expect_anything \<Longrightarrow> accepting h d \<Longrightarrow>
   seen h v = h\<lparr>m_dom_as_built := Some v, m_state := expect_eof\<rparr>"
  using check_json_depth_of_nat [of d]
  by (auto simp: accepting_def seen_def seeing_value_def)

lemma seen_array:
  "m_state h = expect_array_value \<Longrightarrow> accepting h d \<Longrightarrow> d < 100 \<Longrightarrow>
   m_current_element h = (Json_array a, held) # outer \<Longrightarrow>
   seen h v = h\<lparr>m_current_element := (Json_array (a @ [v]), held) # outer\<rparr>"
  using check_json_depth_of_nat [of d]
  by (auto simp: accepting_def seen_def seeing_value_def
        Json_array_append_alias_def Json_array_insert_alias_def)

lemma seen_object:
  "m_state h = expect_object_value \<Longrightarrow> accepting h d \<Longrightarrow> d < 100 \<Longrightarrow>
   m_current_element h = (Json_object m, held) # outer \<Longrightarrow>
   seen h v = h\<lparr>m_state := expect_object_key,
                m_current_element := (Json_object (fst (map_insert (m_key h) v m)), held) # outer\<rparr>"
  using check_json_depth_of_nat [of d]
  by (auto simp: accepting_def seen_def seeing_value_def Json_object_add_alias_def
      split: prod.splits)


lemma run_events_append_Inl:
  "run_events s h es i = Inl x \<Longrightarrow> run_events s h (es @ rest) i = Inl x"
  by (induction es arbitrary: h i) (auto split: sum.splits)

lemma passes_scalar:
  assumes "token_value s t \<noteq> None"
  shows "passes s (Text_scalar t)"
  unfolding passes_def
proof (intro allI impI)
  fix h d rest i
  assume acc: "accepting h d"
  from assms obtain v where v: "token_value s t = Some v" by auto
  from acc have d: "d \<le> 100" by (simp add: accepting_def)
  show "if d + text_depth (Text_scalar t) \<le> 100
        then \<exists>v k. run_events s h (events_of (Text_scalar t) @ rest) i =
               run_events s ((seen h v)\<lparr>m_key := k\<rparr>) rest (i + length (events_of (Text_scalar t)))
        else \<exists>n. run_events s h (events_of (Text_scalar t) @ rest) i = Inl (n, Document_too_deep)"
  proof (cases "d = 100")
    case True
    then show ?thesis
      using seeing_value_accepting [OF acc, of v] v by (simp add: handle_scalar_def)
  next
    case False
    have "(seen h v)\<lparr>m_key := m_key (seen h v)\<rparr> = seen h v" by simp
    with False d show ?thesis
      using seeing_value_accepting [OF acc, of v] v
      by (auto simp: handle_scalar_def intro!: exI [of _ v] exI [of _ "m_key (seen h v)"])
  qed
qed

lemma max_list_le: "max_list xs \<le> n \<longleftrightarrow> (\<forall>x \<in> set xs. x \<le> n)"
  by (induction xs) auto

text \<open>The elements of an open array, one after the other.\<close>

lemma array_elements:
  assumes "\<And>c. c \<in> set cs \<Longrightarrow> passes s c"
    and "m_state h = expect_array_value"
    and "m_current_element h = (Json_array a, held) # outer" and "held \<noteq> Deleted"
    and "m_depth h = of_nat d" and "d \<le> 100"
  shows "if \<forall>c \<in> set cs. d + text_depth c \<le> 100
         then \<exists>a' k. run_events s h (concat (map events_of cs) @ rest) i =
                run_events s (h\<lparr>m_current_element := (Json_array a', held) # outer, m_key := k\<rparr>)
                  rest (i + length (concat (map events_of cs)))
         else \<exists>n. run_events s h (concat (map events_of cs) @ rest) i = Inl (n, Document_too_deep)"
  using assms
proof (induction cs arbitrary: h a i)
  case Nil
  have "h\<lparr>m_current_element := (Json_array a, held) # outer, m_key := m_key h\<rparr> = h"
    using Nil by simp
  then show ?case by (auto intro!: exI [of _ a] exI [of _ "m_key h"])
next
  case (Cons c cs)
  have acc: "accepting h d"
    using Cons.prems by (simp add: accepting_def)
  have pc: "passes s c" using Cons.prems(1) by simp
  show ?case
  proof (cases "d + text_depth c \<le> 100")
    case False
    with pc acc obtain n where
      "run_events s h (events_of c @ (concat (map events_of cs) @ rest)) i = Inl (n, Document_too_deep)"
      unfolding passes_def by (metis (no_types))
    with False show ?thesis by auto
  next
    case True
    then have d100: "d < 100" by (cases c) auto
    from pc acc True obtain v k where
      r: "run_events s h (events_of c @ (concat (map events_of cs) @ rest)) i =
          run_events s ((seen h v)\<lparr>m_key := k\<rparr>) (concat (map events_of cs) @ rest)
            (i + length (events_of c))"
      unfolding passes_def by (metis (no_types))
    let ?h1 = "(seen h v)\<lparr>m_key := k\<rparr>"
    have h1: "?h1 = h\<lparr>m_current_element := (Json_array (a @ [v]), held) # outer, m_key := k\<rparr>"
      using seen_array [OF Cons.prems(2) acc d100 Cons.prems(3)] by simp
    have IH: "if \<forall>c \<in> set cs. d + text_depth c \<le> 100
         then \<exists>a' k'. run_events s ?h1 (concat (map events_of cs) @ rest) (i + length (events_of c)) =
                run_events s (?h1\<lparr>m_current_element := (Json_array a', held) # outer, m_key := k'\<rparr>)
                  rest (i + length (events_of c) + length (concat (map events_of cs)))
         else \<exists>n. run_events s ?h1 (concat (map events_of cs) @ rest) (i + length (events_of c))
                = Inl (n, Document_too_deep)"
      using Cons.prems by (intro Cons.IH [of ?h1 "a @ [v]"]) (simp_all add: h1)
    show ?thesis
    proof (cases "\<forall>c \<in> set cs. d + text_depth c \<le> 100")
      case False
      with IH r True show ?thesis by auto
    next
      case all: True
      with IH obtain a' k' where
        "run_events s ?h1 (concat (map events_of cs) @ rest) (i + length (events_of c)) =
           run_events s (?h1\<lparr>m_current_element := (Json_array a', held) # outer, m_key := k'\<rparr>)
             rest (i + length (events_of c) + length (concat (map events_of cs)))"
        by auto
      moreover have "?h1\<lparr>m_current_element := (Json_array a', held) # outer, m_key := k'\<rparr>
          = h\<lparr>m_current_element := (Json_array a', held) # outer, m_key := k'\<rparr>"
        by (simp add: h1)
      ultimately show ?thesis using r True all
        by (auto simp: add.assoc intro!: exI [of _ a'] exI [of _ k'])
    qed
  qed
qed


text \<open>The members of an open object, one after the other.\<close>

lemma object_members:
  assumes "\<And>kv. kv \<in> set ms \<Longrightarrow> passes s (snd kv)"
    and "m_state h = expect_object_key"
    and "m_current_element h = (Json_object m, held) # outer" and "held \<noteq> Deleted"
    and "m_depth h = of_nat d" and "d \<le> 100"
    and "distinct (map fst ms)" and "\<forall>k \<in> set (map fst ms). map_find k m = None"
  shows "if \<forall>kv \<in> set ms. d + text_depth (snd kv) \<le> 100
         then \<exists>m' k. run_events s h
                  (concat (map (\<lambda>kv. Key (fst kv) # events_of (snd kv)) ms) @ rest) i =
                run_events s (h\<lparr>m_current_element := (Json_object m', held) # outer, m_key := k\<rparr>)
                  rest (i + length (concat (map (\<lambda>kv. Key (fst kv) # events_of (snd kv)) ms)))
         else \<exists>n. run_events s h
                  (concat (map (\<lambda>kv. Key (fst kv) # events_of (snd kv)) ms) @ rest) i
                = Inl (n, Document_too_deep)"
  using assms
proof (induction ms arbitrary: h m i)
  case Nil
  have "h\<lparr>m_current_element := (Json_object m, held) # outer, m_key := m_key h\<rparr> = h"
    using Nil by simp
  then show ?case by (auto intro!: exI [of _ m] exI [of _ "m_key h"])
next
  case (Cons kv ms)
  obtain k0 c where kv: "kv = (k0, c)" by (cases kv)
  let ?evs = "concat (map (\<lambda>kv. Key (fst kv) # events_of (snd kv)) ms)"
  have pc: "passes s c" using Cons.prems(1) [of kv] by (simp add: kv)
  have k0: "map_find k0 m = None" using Cons.prems(8) by (simp add: kv)
  show ?case
  proof (cases "d = 100")
    case True
    have "text_depth c \<ge> 1" by (cases c) auto
    with True have nf: "\<not> d + text_depth c \<le> 100" by simp
    have "Key_cb h k0 = Inl Document_too_deep"
      using True Cons.prems(5) check_json_depth_of_nat [of d] by (simp add: Key_cb_def)
    with nf show ?thesis by (auto simp: kv)
  next
    case False
    with Cons.prems(6) have d100: "d < 100" by simp
    let ?hk = "h\<lparr>m_state := expect_object_value, m_key := k0\<rparr>"
    have key: "Key_cb h k0 = Inr ?hk"
      using d100 Cons.prems(2,5) check_json_depth_of_nat [of d] by (simp add: Key_cb_def)
    have acc: "accepting ?hk d"
      using Cons.prems(3,4,5,6) k0 by (simp add: accepting_def)
    show ?thesis
    proof (cases "d + text_depth c \<le> 100")
      case False
      with pc acc obtain n where
        "run_events s ?hk (events_of c @ (?evs @ rest)) (Suc i) = Inl (n, Document_too_deep)"
        unfolding passes_def by (metis (no_types))
      with False key show ?thesis by (auto simp: kv)
    next
      case True
      from pc acc True obtain v k where
        r: "run_events s ?hk (events_of c @ (?evs @ rest)) (Suc i) =
            run_events s ((seen ?hk v)\<lparr>m_key := k\<rparr>) (?evs @ rest) (Suc i + length (events_of c))"
        unfolding passes_def by (metis (no_types))
      let ?m1 = "fst (map_insert k0 v m)"
      let ?h1 = "(seen ?hk v)\<lparr>m_key := k\<rparr>"
      have "seen ?hk v = ?hk\<lparr>m_state := expect_object_key,
              m_current_element := (Json_object (fst (map_insert (m_key ?hk) v m)), held) # outer\<rparr>"
        using Cons.prems(3) by (intro seen_object [OF _ acc d100]) simp_all
      then have h1: "?h1 = h\<lparr>m_current_element := (Json_object ?m1, held) # outer, m_key := k\<rparr>"
        using Cons.prems(2) by (cases h) simp
      have fresh: "\<forall>k \<in> set (map fst ms). map_find k ?m1 = None"
        using Cons.prems(7,8) k0 by (auto simp: kv map_find_insert_new)
      have IH: "if \<forall>kv \<in> set ms. d + text_depth (snd kv) \<le> 100
         then \<exists>m' k'. run_events s ?h1 (?evs @ rest) (Suc i + length (events_of c)) =
                run_events s (?h1\<lparr>m_current_element := (Json_object m', held) # outer, m_key := k'\<rparr>)
                  rest (Suc i + length (events_of c) + length ?evs)
         else \<exists>n. run_events s ?h1 (?evs @ rest) (Suc i + length (events_of c))
                = Inl (n, Document_too_deep)"
        using Cons.prems fresh by (intro Cons.IH [of ?h1 ?m1]) (simp_all add: h1)
      show ?thesis
      proof (cases "\<forall>kv \<in> set ms. d + text_depth (snd kv) \<le> 100")
        case False
        with IH r True key show ?thesis by (auto simp: kv)
      next
        case all: True
        with IH obtain m' k' where
          "run_events s ?h1 (?evs @ rest) (Suc i + length (events_of c)) =
             run_events s (?h1\<lparr>m_current_element := (Json_object m', held) # outer, m_key := k'\<rparr>)
               rest (Suc i + length (events_of c) + length ?evs)"
          by auto
        moreover have "?h1\<lparr>m_current_element := (Json_object m', held) # outer, m_key := k'\<rparr>
            = h\<lparr>m_current_element := (Json_object m', held) # outer, m_key := k'\<rparr>"
          by (simp add: h1)
        ultimately show ?thesis using r True all key
          by (auto simp: kv add.assoc intro!: exI [of _ m'] exI [of _ k'])
      qed
    qed
  qed
qed

text \<open>Opening and closing a container.\<close>

lemma start_container_accepting:
  assumes "accepting h d" and "d < 100"
  shows "start_container h c next_state =
           Inr ((seen h c)\<lparr>m_depth := of_nat (Suc d),
                  m_current_element :=
                    (c, held_as h) # (if held_as h = At_root then []
                                      else m_current_element (seen h c)),
                  m_state := next_state\<rparr>)"
proof -
  have "m_depth (seen h c) = of_nat d"
    using assms check_json_depth_of_nat [of d]
    by (auto simp: accepting_def seen_def seeing_value_def Json_array_append_alias_def
          Json_array_insert_alias_def Json_object_add_alias_def
        split: enum_state.splits prod.splits)
  then show ?thesis
    using assms seeing_value_accepting [OF assms(1), of c]
    by (simp add: start_container_def)
qed

lemma start_container_too_deep:
  assumes "accepting h 100"
  shows "start_container h c next_state = Inl Document_too_deep"
  using seeing_value_accepting [OF assms, of c] by (simp add: start_container_def)

lemma held_as_not_Deleted: "held_as h \<noteq> Deleted"
  by (simp add: held_as_def split: enum_state.splits)

lemma map_assign_insert_new:
  "map_find k m = None \<Longrightarrow> map_assign k c (fst (map_insert k c0 m)) = fst (map_insert k c m)"
proof (induction m)
  case Nil
  then show ?case by (simp add: key_equiv_iff)
next
  case (Cons kv m)
  obtain k' v' where kv: "kv = (k', v')" by (cases kv)
  from Cons.prems have ne: "k \<noteq> k'" and rest: "map_find k m = None"
    by (auto simp: kv key_equiv_iff split: if_splits)
  show ?case
  proof (cases "Json_key_comparator k k'")
    case True
    then show ?thesis by (simp add: kv key_equiv_iff)
  next
    case False
    with ne have "Json_key_comparator k' k" using key_total by blast
    with False Cons.IH [OF rest] ne show ?thesis
      by (auto simp: kv key_equiv_iff split: prod.splits)
  qed
qed

lemma end_container:
  assumes "accepting h d" and "d < 100"
    and "h3 = (seen h c0)\<lparr>m_depth := of_nat (Suc d),
                  m_current_element :=
                    (c, held_as h) # (if held_as h = At_root then []
                                      else m_current_element (seen h c0)),
                  m_state := st, m_key := k\<rparr>"
  shows "end_object_or_array h3 = Inr ((seen h c)\<lparr>m_key := k\<rparr>)"
proof -
  have dec: "(of_nat (Suc d) :: 64 word) - 1 = of_nat d" by simp
  consider "m_state h = expect_anything" | "m_state h = expect_array_value"
    | "m_state h = expect_object_value"
    using assms(1) by (auto simp: accepting_def split: enum_state.splits)
  then show ?thesis
  proof cases
    case 1
    with assms(1) have "m_current_element h = []" "d = 0" "m_depth h = 0"
      by (auto simp: accepting_def)
    then show ?thesis
      using 1 assms seen_anything [OF 1 assms(1)]
      by (cases h) (simp add: end_object_or_array_def held_as_def)
  next
    case 2
    with assms(1) obtain a held outer where
      ce: "m_current_element h = (Json_array a, held) # outer"
      by (auto simp: accepting_def)
    from assms(1) have "m_depth h = of_nat d" by (simp add: accepting_def)
    then show ?thesis
      using 2 assms(3) seen_array [OF 2 assms(1,2) ce] dec
      by (cases h) (simp add: end_object_or_array_def held_as_def)
  next
    case 3
    with assms(1) obtain m held outer where
      ce: "m_current_element h = (Json_object m, held) # outer"
      and fresh: "map_find (m_key h) m = None"
      by (auto simp: accepting_def)
    from assms(1) have "m_depth h = of_nat d" by (simp add: accepting_def)
    then show ?thesis
      using 3 assms(3) seen_object [OF 3 assms(1,2) ce] dec map_assign_insert_new [OF fresh]
      by (cases h) (simp add: end_object_or_array_def held_as_def)
  qed
qed


lemma array_fits:
  "d + text_depth (Text_array cs) \<le> 100 \<longleftrightarrow>
   d < 100 \<and> (\<forall>c \<in> set cs. Suc d + text_depth c \<le> 100)"
proof -
  have "d + text_depth (Text_array cs) \<le> 100 \<longleftrightarrow>
        d < 100 \<and> max_list (map text_depth cs) \<le> 99 - d"
    by auto
  also have "\<dots> \<longleftrightarrow> d < 100 \<and> (\<forall>c \<in> set cs. text_depth c \<le> 99 - d)"
    by (simp add: max_list_le)
  also have "\<dots> \<longleftrightarrow> d < 100 \<and> (\<forall>c \<in> set cs. Suc d + text_depth c \<le> 100)"
    by auto
  finally show ?thesis .
qed

lemma object_fits:
  "d + text_depth (Text_object ms) \<le> 100 \<longleftrightarrow>
   d < 100 \<and> (\<forall>kv \<in> set ms. Suc d + text_depth (snd kv) \<le> 100)"
proof -
  have "d + text_depth (Text_object ms) \<le> 100 \<longleftrightarrow>
        d < 100 \<and> max_list (map (\<lambda>kv. text_depth (snd kv)) ms) \<le> 99 - d"
    by auto
  also have "\<dots> \<longleftrightarrow> d < 100 \<and> (\<forall>kv \<in> set ms. text_depth (snd kv) \<le> 99 - d)"
    by (simp add: max_list_le)
  also have "\<dots> \<longleftrightarrow> d < 100 \<and> (\<forall>kv \<in> set ms. Suc d + text_depth (snd kv) \<le> 100)"
    by auto
  finally show ?thesis .
qed

lemma passes_array:
  assumes "\<And>c. c \<in> set xs \<Longrightarrow> passes s c"
  shows "passes s (Text_array xs)"
  unfolding passes_def
proof (intro allI impI)
  fix h d rest i
  assume acc: "accepting h d"
  then have d: "d \<le> 100" by (simp add: accepting_def)
  define evs where "evs = concat (map events_of xs)"
  have ev: "events_of (Text_array xs) @ rest = StartArray # evs @ EndArray # rest"
    by (simp add: evs_def)
  have len: "length (events_of (Text_array xs)) = Suc (Suc (length evs))"
    by (simp add: evs_def)
  show "if d + text_depth (Text_array xs) \<le> 100
        then \<exists>v k. run_events s h (events_of (Text_array xs) @ rest) i =
               run_events s ((seen h v)\<lparr>m_key := k\<rparr>) rest
                 (i + length (events_of (Text_array xs)))
        else \<exists>n. run_events s h (events_of (Text_array xs) @ rest) i = Inl (n, Document_too_deep)"
  proof (cases "d = 100")
    case True
    with acc have "StartArray_cb h = Inl Document_too_deep"
      by (simp add: StartArray_cb_def start_container_too_deep)
    then have "run_events s h (events_of (Text_array xs) @ rest) i = Inl (i, Document_too_deep)"
      unfolding ev by simp
    moreover from True have "\<not> d + text_depth (Text_array xs) \<le> 100"
      by (simp add: array_fits)
    ultimately show ?thesis by (simp only: if_False) blast
  next
    case False
    with d have d100: "d < 100" by simp
    define outer where
      "outer = (if held_as h = At_root then [] else m_current_element (seen h (Json_array [])))"
    define h2 where
      "h2 = (seen h (Json_array []))\<lparr>m_depth := of_nat (Suc d),
              m_current_element := (Json_array [], held_as h) # outer, m_state := expect_array_value\<rparr>"
    have start: "StartArray_cb h = Inr h2"
      unfolding StartArray_cb_def h2_def outer_def by (rule start_container_accepting [OF acc d100])
    have run1: "run_events s h (events_of (Text_array xs) @ rest) i =
                run_events s h2 (evs @ EndArray # rest) (Suc i)"
      unfolding ev using start by simp
    have elems: "if \<forall>x \<in> set xs. Suc d + text_depth (x) \<le> 100
         then \<exists>c' k. run_events s h2 (evs @ EndArray # rest) (Suc i) =
                run_events s (h2\<lparr>m_current_element := (Json_array c', held_as h) # outer, m_key := k\<rparr>)
                  (EndArray # rest) (Suc i + length evs)
         else \<exists>n. run_events s h2 (evs @ EndArray # rest) (Suc i) = Inl (n, Document_too_deep)"
      unfolding evs_def
      using assms d100 held_as_not_Deleted [of h]
      by (intro array_elements [of xs s h2 "[]" "held_as h" outer "Suc d"])
         (simp_all add: h2_def)
    show ?thesis
    proof (cases "\<forall>x \<in> set xs. Suc d + text_depth (x) \<le> 100")
      case False
      with elems obtain n where
        "run_events s h2 (evs @ EndArray # rest) (Suc i) = Inl (n, Document_too_deep)"
        by (auto split: if_splits)
      with run1 have "run_events s h (events_of (Text_array xs) @ rest) i = Inl (n, Document_too_deep)"
        by simp
      moreover from False have "\<not> d + text_depth (Text_array xs) \<le> 100"
        by (simp only: array_fits) blast
      ultimately show ?thesis by (simp only: if_False) blast
    next
      case True
      with elems obtain c' k where
        r: "run_events s h2 (evs @ EndArray # rest) (Suc i) =
            run_events s (h2\<lparr>m_current_element := (Json_array c', held_as h) # outer, m_key := k\<rparr>)
              (EndArray # rest) (Suc i + length evs)"
        by (auto split: if_splits)
      define h3 where
        "h3 = h2\<lparr>m_current_element := (Json_array c', held_as h) # outer, m_key := k\<rparr>"
      have st3: "m_state h3 = expect_array_value" by (simp add: h3_def h2_def)
      have "end_object_or_array h3 = Inr ((seen h (Json_array c'))\<lparr>m_key := k\<rparr>)"
        by (rule end_container [OF acc d100, where ?c0.0 = "Json_array []" and st = expect_array_value])
           (simp add: h3_def h2_def outer_def)
      with st3 have "EndArray_cb h3 = Inr ((seen h (Json_array c'))\<lparr>m_key := k\<rparr>)"
        by (simp add: EndArray_cb_def)
      then have e3: "run_events s h3 (EndArray # rest) (Suc i + length evs) =
                 run_events s ((seen h (Json_array c'))\<lparr>m_key := k\<rparr>) rest (Suc (Suc i + length evs))"
        by simp
      have r': "run_events s h2 (evs @ EndArray # rest) (Suc i) =
                run_events s h3 (EndArray # rest) (Suc i + length evs)"
        using r unfolding h3_def .
      have idx: "Suc (Suc i + length evs) = i + length (events_of (Text_array xs))"
        unfolding len by simp
      have "run_events s h (events_of (Text_array xs) @ rest) i =
          run_events s ((seen h (Json_array c'))\<lparr>m_key := k\<rparr>) rest
            (i + length (events_of (Text_array xs)))"
        unfolding idx [symmetric] using run1 r' e3 by (rule trans [OF trans])
      then have "\<exists>v k. run_events s h (events_of (Text_array xs) @ rest) i =
          run_events s ((seen h v)\<lparr>m_key := k\<rparr>) rest
            (i + length (events_of (Text_array xs)))"
        by blast
      moreover from True d100 have "d + text_depth (Text_array xs) \<le> 100"
        by (simp only: array_fits)
      ultimately show ?thesis by (simp only: if_True)
    qed
  qed
qed

lemma passes_object:
  assumes "\<And>kv. kv \<in> set xs \<Longrightarrow> passes s (snd kv)" and "distinct (map fst xs)"
  shows "passes s (Text_object xs)"
  unfolding passes_def
proof (intro allI impI)
  fix h d rest i
  assume acc: "accepting h d"
  then have d: "d \<le> 100" by (simp add: accepting_def)
  define evs where "evs = concat (map (\<lambda>kv. Key (fst kv) # events_of (snd kv)) xs)"
  have ev: "events_of (Text_object xs) @ rest = StartObject # evs @ EndObject # rest"
    by (simp add: evs_def)
  have len: "length (events_of (Text_object xs)) = Suc (Suc (length evs))"
    by (simp add: evs_def)
  show "if d + text_depth (Text_object xs) \<le> 100
        then \<exists>v k. run_events s h (events_of (Text_object xs) @ rest) i =
               run_events s ((seen h v)\<lparr>m_key := k\<rparr>) rest
                 (i + length (events_of (Text_object xs)))
        else \<exists>n. run_events s h (events_of (Text_object xs) @ rest) i = Inl (n, Document_too_deep)"
  proof (cases "d = 100")
    case True
    with acc have "StartObject_cb h = Inl Document_too_deep"
      by (simp add: StartObject_cb_def start_container_too_deep)
    then have "run_events s h (events_of (Text_object xs) @ rest) i = Inl (i, Document_too_deep)"
      unfolding ev by simp
    moreover from True have "\<not> d + text_depth (Text_object xs) \<le> 100"
      by (simp add: object_fits)
    ultimately show ?thesis by (simp only: if_False) blast
  next
    case False
    with d have d100: "d < 100" by simp
    define outer where
      "outer = (if held_as h = At_root then [] else m_current_element (seen h (Json_object [])))"
    define h2 where
      "h2 = (seen h (Json_object []))\<lparr>m_depth := of_nat (Suc d),
              m_current_element := (Json_object [], held_as h) # outer, m_state := expect_object_key\<rparr>"
    have start: "StartObject_cb h = Inr h2"
      unfolding StartObject_cb_def h2_def outer_def by (rule start_container_accepting [OF acc d100])
    have run1: "run_events s h (events_of (Text_object xs) @ rest) i =
                run_events s h2 (evs @ EndObject # rest) (Suc i)"
      unfolding ev using start by simp
    have elems: "if \<forall>x \<in> set xs. Suc d + text_depth (snd x) \<le> 100
         then \<exists>c' k. run_events s h2 (evs @ EndObject # rest) (Suc i) =
                run_events s (h2\<lparr>m_current_element := (Json_object c', held_as h) # outer, m_key := k\<rparr>)
                  (EndObject # rest) (Suc i + length evs)
         else \<exists>n. run_events s h2 (evs @ EndObject # rest) (Suc i) = Inl (n, Document_too_deep)"
      unfolding evs_def
      using assms d100 held_as_not_Deleted [of h]
      by (intro object_members [of xs s h2 "[]" "held_as h" outer "Suc d"])
         (simp_all add: h2_def)
    show ?thesis
    proof (cases "\<forall>x \<in> set xs. Suc d + text_depth (snd x) \<le> 100")
      case False
      with elems obtain n where
        "run_events s h2 (evs @ EndObject # rest) (Suc i) = Inl (n, Document_too_deep)"
        by (auto split: if_splits)
      with run1 have "run_events s h (events_of (Text_object xs) @ rest) i = Inl (n, Document_too_deep)"
        by simp
      moreover from False have "\<not> d + text_depth (Text_object xs) \<le> 100"
        by (simp only: object_fits) blast
      ultimately show ?thesis by (simp only: if_False) blast
    next
      case True
      with elems obtain c' k where
        r: "run_events s h2 (evs @ EndObject # rest) (Suc i) =
            run_events s (h2\<lparr>m_current_element := (Json_object c', held_as h) # outer, m_key := k\<rparr>)
              (EndObject # rest) (Suc i + length evs)"
        by (auto split: if_splits)
      define h3 where
        "h3 = h2\<lparr>m_current_element := (Json_object c', held_as h) # outer, m_key := k\<rparr>"
      have st3: "m_state h3 = expect_object_key" by (simp add: h3_def h2_def)
      have "end_object_or_array h3 = Inr ((seen h (Json_object c'))\<lparr>m_key := k\<rparr>)"
        by (rule end_container [OF acc d100, where ?c0.0 = "Json_object []" and st = expect_object_key])
           (simp add: h3_def h2_def outer_def)
      with st3 have "EndObject_cb h3 = Inr ((seen h (Json_object c'))\<lparr>m_key := k\<rparr>)"
        by (simp add: EndObject_cb_def)
      then have e3: "run_events s h3 (EndObject # rest) (Suc i + length evs) =
                 run_events s ((seen h (Json_object c'))\<lparr>m_key := k\<rparr>) rest (Suc (Suc i + length evs))"
        by simp
      have r': "run_events s h2 (evs @ EndObject # rest) (Suc i) =
                run_events s h3 (EndObject # rest) (Suc i + length evs)"
        using r unfolding h3_def .
      have idx: "Suc (Suc i + length evs) = i + length (events_of (Text_object xs))"
        unfolding len by simp
      have "run_events s h (events_of (Text_object xs) @ rest) i =
          run_events s ((seen h (Json_object c'))\<lparr>m_key := k\<rparr>) rest
            (i + length (events_of (Text_object xs)))"
        unfolding idx [symmetric] using run1 r' e3 by (rule trans [OF trans])
      then have "\<exists>v k. run_events s h (events_of (Text_object xs) @ rest) i =
          run_events s ((seen h v)\<lparr>m_key := k\<rparr>) rest
            (i + length (events_of (Text_object xs)))"
        by blast
      moreover from True d100 have "d + text_depth (Text_object xs) \<le> 100"
        by (simp only: object_fits)
      ultimately show ?thesis by (simp only: if_True)
    qed
  qed
qed

lemma text_ok_passes: "text_ok s doc \<Longrightarrow> passes s doc"
proof (induction doc)
  case (Text_scalar t)
  then show ?case by (simp add: passes_scalar)
next
  case (Text_array cs)
  then show ?case by (intro passes_array) (simp add: list_all_iff)
next
  case (Text_object ms)
  show ?case
  proof (rule passes_object)
    fix kv assume "kv \<in> set ms"
    with Text_object show "passes s (snd kv)"
      by (cases kv) (auto simp: list_all_iff)
  next
    from Text_object.prems show "distinct (map fst ms)" by simp
  qed
qed

lemma accepting_init: "accepting Rapid_json_handler_init 0"
  by (simp add: accepting_def Rapid_json_handler_init_def)

lemma text_depth_pos: "text_depth doc \<ge> 1"
  by (cases doc) auto

lemma hundred_and_one:
  "Reader_Parse s (replicate 101 StartArray) = Inl (100, Document_too_deep)"
  unfolding Reader_Parse_def
  by code_simp


text \<open>
  The depth guard on the texts the handler builds without touching a deleted container.
  Take a text whose numbers are finite and whose objects repeat no key, so that only
  its depth can make the handler refuse it. If its depth is at most 100, the parse
  succeeds: the handler accepts every event and ends with a built DOM, expecting the end
  of the input. If its depth exceeds 100 (in particular when more than 100 containers are
  nested), the parse fails with the depth error \<^verbatim>\<open>ER_JSON_DOCUMENT_TOO_DEEP\<close>. An input of
  101 opening brackets fails with that error at the 101st bracket: the event with index
  100, which for this input is the byte at offset 100.
\<close>

theorem parse_depth:
  assumes "text_ok s doc"
  shows "(text_depth doc \<le> 100 \<longrightarrow>
            (\<exists>h v. Reader_Parse s (events_of doc) = Inr h
                \<and> m_state h = expect_eof \<and> m_dom_as_built h = Some v))
         \<and> (text_depth doc > 100 \<longrightarrow>
            (\<exists>n. Reader_Parse s (events_of doc) = Inl (n, Document_too_deep)))
         \<and> Reader_Parse s (replicate 101 StartArray) = Inl (100, Document_too_deep)"
proof -
  from text_ok_passes [OF assms] accepting_init
  have p: "if 0 + text_depth doc \<le> 100
        then \<exists>v k. run_events s Rapid_json_handler_init (events_of doc @ []) 0 =
               run_events s ((seen Rapid_json_handler_init v)\<lparr>m_key := k\<rparr>) []
                 (0 + length (events_of doc))
        else \<exists>n. run_events s Rapid_json_handler_init (events_of doc @ []) 0
               = Inl (n, Document_too_deep)"
    unfolding passes_def by blast
  have "text_depth doc \<le> 100 \<longrightarrow>
            (\<exists>h v. Reader_Parse s (events_of doc) = Inr h
                \<and> m_state h = expect_eof \<and> m_dom_as_built h = Some v)"
  proof
    assume "text_depth doc \<le> 100"
    with p obtain v k where
      "run_events s Rapid_json_handler_init (events_of doc) 0 =
         Inr ((seen Rapid_json_handler_init v)\<lparr>m_key := k\<rparr>)"
      by auto
    moreover have "seen Rapid_json_handler_init v =
        Rapid_json_handler_init\<lparr>m_dom_as_built := Some v, m_state := expect_eof\<rparr>"
      by (rule seen_anything [OF _ accepting_init]) (simp add: Rapid_json_handler_init_def)
    ultimately show "\<exists>h v. Reader_Parse s (events_of doc) = Inr h
                \<and> m_state h = expect_eof \<and> m_dom_as_built h = Some v"
      by (simp add: Reader_Parse_def)
  qed
  moreover have "text_depth doc > 100 \<longrightarrow>
            (\<exists>n. Reader_Parse s (events_of doc) = Inl (n, Document_too_deep))"
    using p by (auto simp: Reader_Parse_def)
  ultimately show ?thesis using hundred_and_one by blast
qed

theorem parse_depth_witness:
  "text_ok (\<lambda>str. (Double False 0 0, False))
     (Text_array [Text_scalar (Tok_Int 1), Text_object [(''a'', Text_scalar Tok_Null)]])
   \<and> text_depth (Text_array [Text_scalar (Tok_Int 1), Text_object [(''a'', Text_scalar Tok_Null)]])
       \<le> 100
   \<and> (\<exists>h v. Reader_Parse (\<lambda>str. (Double False 0 0, False))
               (events_of (Text_array [Text_scalar (Tok_Int 1),
                                       Text_object [(''a'', Text_scalar Tok_Null)]])) = Inr h
          \<and> m_state h = expect_eof \<and> m_dom_as_built h = Some v)
   \<and> text_ok (\<lambda>str. (Double False 0 0, False)) (nested_arrays 100)
   \<and> text_depth (nested_arrays 100) > 100
   \<and> (\<exists>n. Reader_Parse (\<lambda>str. (Double False 0 0, False)) (events_of (nested_arrays 100))
            = Inl (n, Document_too_deep))"
proof -
  let ?s = "\<lambda>str :: string. (Double False 0 0, False)"
  let ?doc = "Text_array [Text_scalar (Tok_Int 1), Text_object [(''a'', Text_scalar Tok_Null)]]"
  have ok1: "text_ok ?s ?doc" by simp
  have d1: "text_depth ?doc \<le> 100" by simp
  have ok2: "text_ok ?s (nested_arrays n)" for n by (induction n) simp_all
  have "text_depth (nested_arrays n) = Suc n" for n by (induction n) simp_all
  then have d2: "text_depth (nested_arrays 100) > 100" by simp
  from parse_depth [OF ok1] parse_depth [OF ok2 [of 100]] ok1 d1 ok2 [of 100] d2
  show ?thesis by blast
qed

text \<open>
  C7 on a text that repeats a key: \<^verbatim>\<open>{"a":1,"a":[2]}\<close> has depth 3, far below the
  maximum, and the handler does not get through it. \<^verbatim>\<open>StartArray\<close> hands the new array to
  \<^verbatim>\<open>seeing_value\<close> and \<^verbatim>\<open>add_alias\<close>, which deletes it because the key \<^verbatim>\<open>a\<close> is
  already in the object, and then makes the deleted array the current element; the next
  value, \<^verbatim>\<open>2\<close> (the event with index 5), is appended to it.
\<close>

theorem parse_repeated_key_container:
  "text_depth (Text_object [(''a'', Text_scalar (Tok_Uint 1)),
                            (''a'', Text_array [Text_scalar (Tok_Uint 2)])]) = 3
   \<and> Reader_Parse (\<lambda>str. (Double False 0 0, False))
        (events_of (Text_object [(''a'', Text_scalar (Tok_Uint 1)),
                                 (''a'', Text_array [Text_scalar (Tok_Uint 2)])]))
       = Inl (5, Undefined_behaviour)"
  by code_simp

subsection \<open>The values of decimals and doubles\<close>


lemma dec_value_zero: "dec_value d = 0 \<longleftrightarrow> dec_digits d = 0"
  by (auto simp: dec_value_def)

lemma my_decimal_cmp_zero_iff:
  "my_decimal_cmp a x = 0 \<longleftrightarrow> dec_sign a = dec_sign x \<and> dec_value a = dec_value x"
  by (auto simp: my_decimal_cmp_def compare_numbers_def)



lemma dec_value_longlong2decimal: "dec_value (longlong2decimal b) = of_int (sint b)"
  by (simp add: dec_value_def longlong2decimal_def)

lemma dec_value_ulonglong2decimal: "dec_value (ulonglong2decimal b) = of_int (uint b)"
  by (simp add: dec_value_def ulonglong2decimal_def)

subsection \<open>Comparison is antisymmetric and follows the precedence table (C3)\<close>


lemma type_comparison_precedence:
  "a \<noteq> J_ERROR \<Longrightarrow> b \<noteq> J_ERROR \<Longrightarrow>
   type_comparison ! enum_index a ! enum_index b =
     (if precedence a < precedence b then - 1 else if precedence b < precedence a then 1 else 0)"
  by (cases a; cases b; simp add: type_comparison_def)




text \<open>
  Whatever the library, the result of \<^verbatim>\<open>memcmp\<close> is zero when its sign is, and has that
  sign.
\<close>

lemma memcmp_zero_iff: "memcmp lib s t n = 0 \<longleftrightarrow> memcmp_sign s t n = 0"
  by (simp add: memcmp_def)









lemma json_type_not_error: "json_type d \<noteq> J_ERROR"
  by (cases d) auto



lemma well_formed_not_error: "well_formed lib w \<Longrightarrow> Json_wrapper_type w \<noteq> J_ERROR"
  by (cases "m_value w")
    (auto simp: well_formed_def Json_wrapper_type_def Json_wrapper_empty_def bjson2json_def
          Let_def json_type_not_error split: if_splits option.splits)



lemma well_formed_double:
  "well_formed lib w \<Longrightarrow> Json_wrapper_type w = J_DOUBLE \<Longrightarrow> double_ok (Json_wrapper_get_double w)"
  apply (cases "m_is_dom w")
  subgoal
    apply (cases "m_dom_value w")
     apply (simp add: well_formed_def)
    subgoal for d
      by (cases d)
        (auto simp: well_formed_def Json_wrapper_type_def Json_wrapper_empty_def
           Json_wrapper_get_double_def split: if_splits)
    done
  subgoal
    by (cases "m_value w")
      (auto simp: well_formed_def Json_wrapper_type_def Json_wrapper_empty_def bjson2json_def
         Json_wrapper_get_double_def Let_def split: if_splits)
  done

lemma well_formed_decimal:
  "well_formed lib w \<Longrightarrow> Json_wrapper_type w = J_DECIMAL
   \<Longrightarrow> \<exists>d. Json_wrapper_get_decimal_data lib w = Some d"
  apply (cases "m_is_dom w")
  subgoal
    by (auto simp: Json_wrapper_get_decimal_data_def split: option.splits Json_dom.splits)
  subgoal
    by (cases "m_value w")
      (auto simp: well_formed_def Json_wrapper_type_def Json_wrapper_empty_def bjson2json_def
         Json_wrapper_get_decimal_data_def Let_def split: if_splits)
  done























subsection \<open>Rounding to a double\<close>

lemma double_units_magnitude:
  "double_units d = (if sign_bit d then - magnitude (biased_exponent d) (fraction d)
                     else magnitude (biased_exponent d) (fraction d))"
  by (simp add: double_units_def magnitude_def Let_def)

lemma magnitude_nonneg: "0 \<le> magnitude E f"
  by (simp add: magnitude_def)

lemma magnitude_bitlen:
  assumes "f < 2 ^ 52"
  shows "bitlen (magnitude E f) = (if E = 0 then bitlen (int f) else 52 + int E)"
proof (cases "E = 0")
  case True
  then show ?thesis by (simp add: magnitude_def)
next
  case False
  have "bitlen (2 ^ 52 + int f) = 53"
    using bitlen_twopow_add_eq [of "int f" 52] assms by simp
  then have "bitlen ((2 ^ 52 + int f) * 2 ^ (E - 1)) = 53 + int (E - 1)"
    by (subst bitlen_pow2) auto
  then show ?thesis using False by (simp add: magnitude_def of_nat_diff)
qed

lemma magnitude_inj:
  assumes f1: "f1 < 2 ^ 52" and f2: "f2 < 2 ^ 52"
    and eq: "magnitude E1 f1 = magnitude E2 f2"
  shows "E1 = E2 \<and> f1 = f2"
proof -
  have small: "bitlen (int f) \<le> 52" if "f < 2 ^ 52" for f :: nat
    using that by (simp add: bitlen_le_iff_power)
  have b: "bitlen (magnitude E1 f1) = bitlen (magnitude E2 f2)" using eq by simp
  have E: "E1 = E2"
    using b small [OF f1] small [OF f2]
    by (auto simp: magnitude_bitlen [OF f1] magnitude_bitlen [OF f2] split: if_splits)
  show ?thesis
    using eq E by (auto simp: magnitude_def split: if_splits)
qed


lemma double_units_inj:
  assumes "fraction a < 2 ^ 52" and "fraction b < 2 ^ 52"
    and "double_units a = double_units b" and "double_units a \<noteq> 0"
  shows "a = b"
proof -
  have m: "0 \<le> magnitude (biased_exponent a) (fraction a)"
      "0 \<le> magnitude (biased_exponent b) (fraction b)"
    by (rule magnitude_nonneg)+
  have s: "sign_bit a = sign_bit b"
    using assms(3,4) m by (auto simp: double_units_magnitude split: if_splits)
  then have "magnitude (biased_exponent a) (fraction a) = magnitude (biased_exponent b) (fraction b)"
    using assms(3) by (auto simp: double_units_magnitude split: if_splits)
  from magnitude_inj [OF assms(1,2) this] s show ?thesis
    by (simp add: double.expand)
qed

lemma int_div_less:
  fixes num den c :: int
  assumes "0 < den" and "num < c * den"
  shows "num div den < c"
proof (rule ccontr)
  assume "\<not> num div den < c"
  then have "c \<le> num div den" by simp
  then have "c * den \<le> (num div den) * den"
    using assms(1) by (simp add: mult_right_mono)
  also have "\<dots> \<le> num"
    using assms(1) by (metis div_mult_mod_eq le_add_same_cancel1 pos_mod_sign)
  finally show False using assms(2) by simp
qed

lemma shift2_pos: "0 < q \<Longrightarrow> 0 < snd (shift2 p q e)"
  by (simp add: shift2_def)

lemma shift2_nonneg: "0 \<le> p \<Longrightarrow> 0 \<le> fst (shift2 p q e)"
  by (simp add: shift2_def)

lemma shift2_ratio:
  assumes "0 < q"
  shows "(of_int (fst (shift2 p q e)) :: rat) / of_int (snd (shift2 p q e))
       = of_int p / of_int q * 2 powi (- e)"
proof (cases "e \<le> 0")
  case True
  then show ?thesis by (simp add: shift2_def power_int_def)
next
  case False
  then show ?thesis by (simp add: shift2_def power_int_def field_simps)
qed

lemma bitlen_rat_bounds:
  assumes "0 < p"
  shows "(2::rat) powi (bitlen p - 1) \<le> of_int p" and "(of_int p :: rat) < 2 powi (bitlen p)"
proof -
  have b1: "1 \<le> bitlen p"
    using assms bitlen_eq_zero_iff [of p] bitlen_nonneg [of p] by linarith
  have lo: "2 ^ nat (bitlen p - 1) \<le> p" and hi: "p < 2 ^ nat (bitlen p)"
    using bitlen_bounds [OF assms] by simp_all
  have "(of_int (2 ^ nat (bitlen p - 1)) :: rat) \<le> of_int p"
    using lo by (simp only: of_int_le_iff)
  then show "(2::rat) powi (bitlen p - 1) \<le> of_int p"
    using b1 by (simp add: power_int_def)
  have "(of_int p :: rat) < of_int (2 ^ nat (bitlen p))"
    using hi by (simp only: of_int_less_iff)
  then show "(of_int p :: rat) < 2 powi (bitlen p)"
    using b1 by (simp add: power_int_def)
qed

lemma binary_exponent_upper:
  assumes p: "0 < p" and q: "0 < q"
  shows "(of_int p :: rat) / of_int q < 2 powi (binary_exponent p q + 1)"
proof -
  define e0 where "e0 = bitlen p - bitlen q"
  show ?thesis
  proof (cases "snd (shift2 p q e0) \<le> fst (shift2 p q e0)")
    case True
    then have e: "binary_exponent p q = e0"
      by (simp add: binary_exponent_def e0_def Let_def)
    have pos: "(0::rat) < 2 powi (bitlen q - 1)" by simp
    have "(of_int p :: rat) / of_int q < 2 powi (bitlen p) / 2 powi (bitlen q - 1)"
      using bitlen_rat_bounds [OF p] bitlen_rat_bounds [OF q] p q pos
      by (intro frac_less) auto
    also have "\<dots> = 2 powi (bitlen p - (bitlen q - 1))"
      by (simp add: power_int_diff)
    also have "bitlen p - (bitlen q - 1) = e0 + 1" by (simp add: e0_def)
    finally show ?thesis by (simp add: e)
  next
    case False
    then have e: "binary_exponent p q = e0 - 1"
      by (simp add: binary_exponent_def e0_def Let_def)
    have d: "(0::rat) < of_int (snd (shift2 p q e0))"
      using shift2_pos [OF q, of p e0] by simp
    have "(of_int (fst (shift2 p q e0)) :: rat) < of_int (snd (shift2 p q e0))"
      using False by (simp only: of_int_less_iff not_le)
    then have "(of_int (fst (shift2 p q e0)) :: rat) / of_int (snd (shift2 p q e0)) < 1"
      using d by simp
    then have "(of_int p :: rat) / of_int q * 2 powi (- e0) < 1"
      by (simp only: shift2_ratio [OF q])
    then have "(of_int p :: rat) / of_int q * 2 powi (- e0) * 2 powi e0 < 1 * 2 powi e0"
      by (intro mult_strict_right_mono) auto
    moreover have "(2::rat) powi (- e0) * 2 powi e0 = 1"
      using power_int_add [of "2::rat" "- e0" e0] by simp
    ultimately have "(of_int p :: rat) / of_int q < 2 powi e0"
      by (simp only: mult.assoc mult_1_right mult_1_left)
    then show ?thesis by (simp add: e)
  qed
qed

lemma mantissa_bound:
  assumes p: "0 < p" and q: "0 < q" and e: "binary_exponent p q \<le> e"
  shows "fst (shift2 p q (e - 52)) div snd (shift2 p q (e - 52)) < 2 ^ 53"
proof -
  let ?num = "fst (shift2 p q (e - 52))"
  let ?den = "snd (shift2 p q (e - 52))"
  have den: "0 < ?den" by (rule shift2_pos [OF q])
  have "(of_int ?num :: rat) / of_int ?den = of_int p / of_int q * 2 powi (- (e - 52))"
    by (rule shift2_ratio [OF q])
  also have "\<dots> < 2 powi (binary_exponent p q + 1) * 2 powi (- (e - 52))"
    using binary_exponent_upper [OF p q] by (intro mult_strict_right_mono) auto
  also have "\<dots> = 2 powi (binary_exponent p q + 1 + (- (e - 52)))"
    by (rule power_int_add [symmetric]) simp
  also have "\<dots> \<le> 2 powi 53"
    using e by (intro power_int_increasing) auto
  finally have "(of_int ?num :: rat) / of_int ?den < 2 ^ 53" by simp
  then have "(of_int ?num :: rat) < 2 ^ 53 * of_int ?den"
    using den by (simp add: pos_divide_less_eq)
  then have "(of_int ?num :: rat) < of_int (2 ^ 53 * ?den)" by simp
  then have "?num < 2 ^ 53 * ?den" by (simp only: of_int_less_iff)
  then show ?thesis using den by (intro int_div_less) auto
qed

lemma round_half_even_bounds:
  "num div den \<le> round_half_even num den" "round_half_even num den \<le> num div den + 1"
  by (simp_all add: round_half_even_def Let_def)

lemma quotient_of_abs_nonneg: "0 \<le> fst (quotient_of \<bar>r\<bar>)"
proof -
  obtain p q where pq: "quotient_of \<bar>r\<bar> = (p, q)" by (cases "quotient_of \<bar>r\<bar>")
  have q: "0 < q" using pq by (rule quotient_of_denom_pos)
  have "\<bar>r\<bar> = of_int p / of_int q" using pq by (rule quotient_of_div)
  then have "(0::rat) \<le> of_int p / of_int q" by (metis abs_ge_zero)
  then have "(0::rat) \<le> of_int p" using q by (simp add: zero_le_divide_iff)
  then show ?thesis using pq by simp
qed

lemma round_to_double_ok: "double_ok (round_to_double r)"
proof -
  define p where "p = fst (quotient_of \<bar>r\<bar>)"
  define q where "q = snd (quotient_of \<bar>r\<bar>)"
  have q: "0 < q" unfolding q_def by (rule quotient_of_denom_pos')
  have p0: "0 \<le> p" unfolding p_def by (rule quotient_of_abs_nonneg)
  show ?thesis
  proof (cases "p = 0")
    case True
    then show ?thesis
      by (simp add: round_to_double_def p_def [symmetric] double_ok_def isnan_def)
  next
    case False
    then have p: "0 < p" using p0 by simp
    define e where "e = max (binary_exponent p q) (- 1022)"
    define m where "m = round_half_even (fst (shift2 p q (e - 52))) (snd (shift2 p q (e - 52)))"
    have "fst (shift2 p q (e - 52)) div snd (shift2 p q (e - 52)) < 2 ^ 53"
      by (rule mantissa_bound [OF p q]) (simp add: e_def)
    then have m_hi: "m \<le> 2 ^ 53"
      using round_half_even_bounds(2) [of "fst (shift2 p q (e - 52))" "snd (shift2 p q (e - 52))"]
      by (simp add: m_def)
    have "0 \<le> fst (shift2 p q (e - 52)) div snd (shift2 p q (e - 52))"
      using shift2_nonneg [OF p0, of q "e - 52"] shift2_pos [OF q, of p "e - 52"]
      by (simp add: pos_imp_zdiv_nonneg_iff)
    then have m_lo: "0 \<le> m"
      using round_half_even_bounds(1) [of "fst (shift2 p q (e - 52))" "snd (shift2 p q (e - 52))"]
      by (simp add: m_def)
    have unfold: "round_to_double r =
        (let m' = (if m = 2 ^ 53 then 2 ^ 52 else m);
             e' = (if m = 2 ^ 53 then e + 1 else e)
         in if m' < 2 ^ 52 then Double (r < 0) 0 (nat m')
            else if 1023 < e' then Double (r < 0) 2047 0
            else Double (r < 0) (nat (e' + 1023)) (nat (m' - 2 ^ 52)))"
      using False
      by (simp add: round_to_double_def p_def [symmetric] q_def [symmetric] Let_def
          e_def [symmetric] m_def [symmetric])
    show ?thesis
      unfolding unfold using m_hi m_lo
      by (auto simp: Let_def double_ok_def isnan_def nat_less_iff)
  qed
qed




lemma longlong2double_ok: "double_ok (longlong2double i)"
  by (simp add: longlong2double_def round_to_double_ok)

lemma ulonglong2double_ok: "double_ok (ulonglong2double i)"
  by (simp add: ulonglong2double_def round_to_double_ok)

lemma decimal2double_ok: "double_ok (decimal2double d)"
  by (simp add: decimal2double_def round_to_double_ok)

subsection \<open>DOUBLE against INT (C8)\<close>

lemma double_units_zero [simp]: "double_units double_zero = 0" "\<not> isnan double_zero"
  by (simp_all add: double_zero_def double_units_def isnan_def)


lemma round_to_double_0: "round_to_double 0 = Double False 0 0"
  by (simp add: round_to_double_def)













subsection \<open>Hash keys of equal scalars (C9)\<close>

lemma compare_numbers_zero_iff: "compare_numbers x y = 0 \<longleftrightarrow> x = y"
  by (auto simp: compare_numbers_def)

lemma compare_json_strings_zero:
  assumes "compare_json_strings lib s (length s) t (length t) = 0"
  shows "s = t"
proof -
  define n where "n = length s"
  define k where "k = length t"
  have "compare_json_strings lib s n t k = 0" using assms by (simp add: n_def k_def)
  then have len: "n = k" and m: "memcmp_sign s t (min n k) = 0"
    by (auto simp: compare_json_strings_def Let_def compare_numbers_def memcmp_zero_iff
          split: if_splits)
  have m': "memcmp_sign s t n = 0" using m len by simp
  have ls: "length s = n" by (simp add: n_def)
  have lt: "length t = n" using len by (simp add: k_def)
  show ?thesis by (rule memcmp_eq_0 [OF ls lt m'])
qed

lemma get_data_length: "Json_wrapper_get_data_length w = length (Json_wrapper_get_data w)"
  by (auto simp: Json_wrapper_get_data_length_def Json_wrapper_get_data_def
        Value_get_data_length_def split: option.splits Json_dom.splits)

lemma add_double_cong:
  assumes "double_ok x" and "double_ok y" and "double_equal x y"
  shows "add_double crc x = add_double crc y"
proof (cases "double_units x = 0")
  case True
  then show ?thesis using assms by (simp add: add_double_def double_equal_def)
next
  case False
  have "x = y"
    using assms False by (intro double_units_inj) (simp_all add: double_ok_def double_equal_def)
  then show ?thesis by simp
qed

lemma not_less_double_equal:
  assumes "\<not> isnan x" and "\<not> isnan y" and "\<not> double_less x y" and "\<not> double_less y x"
  shows "double_equal x y"
  using assms by (auto simp: double_less_def double_equal_def)

lemma compare_json_double_int_zero_equal:
  assumes "compare_json_double_int lib a b = 0" and "\<not> isnan a"
  shows "double_equal a (longlong2double b)"
proof -
  have "\<not> isnan (longlong2double b)"
    using round_to_double_ok [of "of_int (sint b)"] by (simp add: longlong2double_def double_ok_def)
  then show ?thesis
    using assms
    by (intro not_less_double_equal)
      (auto simp: compare_json_double_int_def Let_def split: if_splits)
qed

lemma compare_json_double_uint_zero_equal:
  assumes "compare_json_double_uint lib a b = 0" and "\<not> isnan a"
  shows "double_equal a (ulonglong2double b)"
proof -
  have "\<not> isnan (ulonglong2double b)"
    using round_to_double_ok [of "of_int (uint b)"] by (simp add: ulonglong2double_def double_ok_def)
  then show ?thesis
    using assms
    by (intro not_less_double_equal)
      (auto simp: compare_json_double_uint_def Let_def split: if_splits)
qed

lemma compare_json_decimal_int_zero:
  assumes "compare_json_decimal_int a b = 0"
  shows "dec_value a = of_int (sint b)"
  using assms dec_value_zero [of a]
  by (auto simp: compare_json_decimal_int_def my_decimal_is_zero_def my_decimal_cmp_zero_iff
        dec_value_longlong2decimal split: if_splits)

lemma compare_json_decimal_uint_zero:
  assumes "compare_json_decimal_uint a b = 0"
  shows "dec_value a = of_int (uint b)"
  using assms dec_value_zero [of a]
  by (auto simp: compare_json_decimal_uint_def my_decimal_is_zero_def my_decimal_cmp_zero_iff
        dec_value_ulonglong2decimal split: if_splits)

lemma compare_json_int_uint_zero:
  assumes "compare_json_int_uint a b = 0"
  shows "sint a = uint b"
proof -
  have nn: "\<not> sint a < 0" and eq: "uint a = uint b"
    using assms by (auto simp: compare_json_int_uint_def compare_numbers_def split: if_splits)
  have "sint a < 2 ^ 64" using sint_lt [of a] by simp
  then have "take_bit 64 (sint a) = sint a"
    using nn by (intro take_bit_int_eq_self) simp_all
  then have "sint a = uint a"
    using uint_sint [of a] by simp
  then show ?thesis using eq by simp
qed

lemma compare_json_decimal_double_zero_equal:
  assumes z: "compare_json_decimal_double lib a d = 0" and nan: "\<not> isnan d"
    and rt: "round_trips lib d"
  shows "double_equal (decimal2double a) d"
proof (cases "my_decimal_is_zero a")
  case True
  then have "double_equal d double_zero"
    using z by (auto simp: compare_json_decimal_double_def Let_def split: if_splits)
  moreover have "decimal2double a = Double False 0 0"
    using True dec_value_zero [of a]
    by (simp add: decimal2double_def my_decimal_is_zero_def round_to_double_0)
  ultimately show ?thesis
    by (simp add: double_equal_def double_zero_def)
next
  case False
  obtain st x where x: "double2decimal lib d = (st, x)" by (cases "double2decimal lib d")
  have st: "st = E_DEC_OK" and c: "my_decimal_cmp a x = 0"
    using z False x
    by (cases st; auto simp: compare_json_decimal_double_def Let_def split: if_splits)+
  have "dec_value a = dec_value x" using c by (simp add: my_decimal_cmp_zero_iff)
  then have "decimal2double a = decimal2double x" by (simp add: decimal2double_def)
  moreover have "double_equal (decimal2double x) d"
    using rt x st by (simp add: round_trips_def)
  ultimately show ?thesis by simp
qed

lemma le_decode_nth:
  assumes "\<forall>b \<in> set bs. b < 256" and "i < length bs"
  shows "foldr (\<lambda>b n. b + 256 * n) bs (0::nat) div 256 ^ i mod 256 = bs ! i"
  using assms
proof (induction bs arbitrary: i)
  case Nil
  then show ?case by simp
next
  case (Cons b bs)
  show ?case
  proof (cases i)
    case 0
    then show ?thesis using Cons.prems by simp
  next
    case (Suc j)
    have "(b + 256 * foldr (\<lambda>b n. b + 256 * n) bs 0) div 256 ^ Suc j
        = ((b + 256 * foldr (\<lambda>b n. b + 256 * n) bs 0) div 256) div 256 ^ j"
      by (simp add: div_mult2_eq)
    also have "\<dots> = foldr (\<lambda>b n. b + 256 * n) bs 0 div 256 ^ j"
      using Cons.prems by simp
    finally show ?thesis
      using Cons.IH [of j] Cons.prems Suc by simp
  qed
qed

lemma le_decode_bound:
  assumes "\<forall>b \<in> set bs. b < 256"
  shows "foldr (\<lambda>b n. b + 256 * n) bs (0::nat) < 256 ^ length bs"
  using assms
proof (induction bs)
  case Nil
  then show ?case by simp
next
  case (Cons b bs)
  then have "b < 256" and "foldr (\<lambda>b n. b + 256 * n) bs 0 + 1 \<le> 256 ^ length bs" by auto
  then show ?case by simp
qed

lemma uchar_of_less: "uchar_of c < 256"
  by (simp add: uchar_of_def)

lemma int8store_sint8korr:
  assumes "length s = 8"
  shows "int8store (sint8korr s) = map uchar_of s"
proof -
  define bs where "bs = map uchar_of s"
  have bs: "\<forall>b \<in> set bs. b < 256" by (auto simp: bs_def uchar_of_less)
  have len: "length bs = 8" using assms by (simp add: bs_def)
  define N where "N = foldr (\<lambda>b n. b + 256 * n) bs (0::nat)"
  have N: "N < 2 ^ 64" using le_decode_bound [OF bs] len by (simp add: N_def)
  have "foldr (\<lambda>c n. uchar_of c + 256 * n) (take 8 s) 0 = N"
    using assms by (simp add: N_def bs_def foldr_map comp_def)
  then have k: "sint8korr s = word_of_nat N" by (simp add: sint8korr_def)
  have u: "unat (word_of_nat N :: 64 word) = N"
    using N by (simp add: unat_of_nat take_bit_nat_eq_self)
  have "int8store (sint8korr s) = map (\<lambda>i. N div 256 ^ i mod 256) [0..<8]"
    by (simp only: int8store_def k u)
  also have "\<dots> = map (\<lambda>i. bs ! i) [0..<length bs]"
    unfolding len using le_decode_nth [OF bs] len by (intro map_cong) (auto simp: N_def)
  also have "\<dots> = bs" by (rule map_nth)
  finally show ?thesis by (simp add: bs_def)
qed


lemma json_type_temporal:
  "json_type d = J_DATE \<or> json_type d = J_TIME \<or> json_type d = J_DATETIME
     \<or> json_type d = J_TIMESTAMP \<Longrightarrow> \<exists>t ft. d = Json_datetime t ft"
  by (cases d) auto

lemma datetime_packed:
  assumes w: "well_formed lib w"
    and t: "Json_wrapper_type w = J_DATE \<or> Json_wrapper_type w = J_TIME
        \<or> Json_wrapper_type w = J_DATETIME \<or> Json_wrapper_type w = J_TIMESTAMP"
  shows "Json_wrapper_get_datetime_packed w = int8store (Json_wrapper_get_datetime w)"
proof (cases "m_is_dom w")
  case True
  then obtain d where d: "m_dom_value w = Some d"
    using w by (auto simp: well_formed_def split: option.splits)
  have "json_type d = J_DATE \<or> json_type d = J_TIME \<or> json_type d = J_DATETIME
     \<or> json_type d = J_TIMESTAMP"
    using t True d by (simp add: Json_wrapper_type_def Json_wrapper_empty_def)
  then obtain p ft where "d = Json_datetime p ft" using json_type_temporal by blast
  then show ?thesis
    using True d by (simp add: Json_wrapper_get_datetime_packed_def Json_wrapper_get_datetime_def)
next
  case False
  have "\<exists>ft s. m_value w = Value_opaque ft s \<and> length s = 8"
    using t w False
    by (cases "m_value w")
      (auto simp: Json_wrapper_type_def Json_wrapper_empty_def bjson2json_def Let_def
         well_formed_def MYSQL_TYPE_NEWDECIMAL_def MYSQL_TYPE_DATE_def MYSQL_TYPE_TIME_def
         MYSQL_TYPE_DATETIME_def MYSQL_TYPE_TIMESTAMP_def split: if_splits)
  then obtain ft s where v: "m_value w = Value_opaque ft s" and len: "length s = 8" by blast
  show ?thesis
    using False v len int8store_sint8korr [OF len]
    by (simp add: Json_wrapper_get_datetime_packed_def Json_wrapper_get_datetime_def)
qed

lemma double_equal_sym: "double_equal x y \<Longrightarrow> double_equal y x"
  by (auto simp: double_equal_def)

lemma double_equal_refl: "\<not> isnan x \<Longrightarrow> double_equal x x"
  by (auto simp: double_equal_def)

lemma compare_types_zero:
  assumes "compare lib a b = 0"
  shows "type_comparison ! enum_index (Json_wrapper_type a) ! enum_index (Json_wrapper_type b) = 0"
  using assms by (simp add: compare.simps [of lib a b] Let_def split: if_splits)

lemma hash_scalar:
  assumes wa: "well_formed lib a" and wb: "well_formed lib b"
    and rt: "round_trip_pair lib a b"
    and eq: "compare lib a b = 0"
    and sa: "Json_wrapper_type a \<noteq> J_ARRAY" "Json_wrapper_type a \<noteq> J_OBJECT"
  shows "make_hash_key lib a seed = make_hash_key lib b seed"
proof -
  define ta where "ta = Json_wrapper_type a"
  define tb where "tb = Json_wrapper_type b"
  have ea: "ta \<noteq> J_ERROR" and eb: "tb \<noteq> J_ERROR"
    using wa wb well_formed_not_error by (auto simp: ta_def tb_def)
  have "type_comparison ! enum_index ta ! enum_index tb = 0"
    using compare_types_zero [OF eq] by (simp add: ta_def tb_def)
  then have prec: "precedence ta = precedence tb"
    using type_comparison_precedence [OF ea eb] by (simp split: if_splits)
  have A: "Json_wrapper_type a = ta" and B: "Json_wrapper_type b = tb"
    by (simp_all add: ta_def tb_def)
  have da: "double_ok (Json_wrapper_get_double a)" if "ta = J_DOUBLE"
    using well_formed_double [OF wa] that by (simp add: ta_def)
  have db: "double_ok (Json_wrapper_get_double b)" if "tb = J_DOUBLE"
    using well_formed_double [OF wb] that by (simp add: tb_def)
  have ca: "\<exists>d. Json_wrapper_get_decimal_data lib a = Some d" if "ta = J_DECIMAL"
    using well_formed_decimal [OF wa] that by (simp add: ta_def)
  have cb: "\<exists>d. Json_wrapper_get_decimal_data lib b = Some d" if "tb = J_DECIMAL"
    using well_formed_decimal [OF wb] that by (simp add: tb_def)
  note ok = longlong2double_ok ulonglong2double_ok decimal2double_ok
  consider (null) "ta = J_NULL" "tb = J_NULL"
    | (dec_dec) "ta = J_DECIMAL" "tb = J_DECIMAL"
    | (dec_int) "ta = J_DECIMAL" "tb = J_INT"
    | (dec_uint) "ta = J_DECIMAL" "tb = J_UINT"
    | (dec_double) "ta = J_DECIMAL" "tb = J_DOUBLE"
    | (int_dec) "ta = J_INT" "tb = J_DECIMAL"
    | (int_int) "ta = J_INT" "tb = J_INT"
    | (int_uint) "ta = J_INT" "tb = J_UINT"
    | (int_double) "ta = J_INT" "tb = J_DOUBLE"
    | (uint_dec) "ta = J_UINT" "tb = J_DECIMAL"
    | (uint_int) "ta = J_UINT" "tb = J_INT"
    | (uint_uint) "ta = J_UINT" "tb = J_UINT"
    | (uint_double) "ta = J_UINT" "tb = J_DOUBLE"
    | (double_dec) "ta = J_DOUBLE" "tb = J_DECIMAL"
    | (double_int) "ta = J_DOUBLE" "tb = J_INT"
    | (double_uint) "ta = J_DOUBLE" "tb = J_UINT"
    | (double_double) "ta = J_DOUBLE" "tb = J_DOUBLE"
    | (string) "ta = J_STRING" "tb = J_STRING"
    | (boolean) "ta = J_BOOLEAN" "tb = J_BOOLEAN"
    | (opaque) "ta = J_OPAQUE" "tb = J_OPAQUE"
    | (temporal) "ta = J_DATE \<or> ta = J_TIME \<or> ta = J_DATETIME \<or> ta = J_TIMESTAMP"
        "tb = J_DATE \<or> tb = J_TIME \<or> tb = J_DATETIME \<or> tb = J_TIMESTAMP"
    using prec ea eb sa by (cases ta; cases tb; simp add: ta_def [symmetric])
  then show ?thesis
  proof cases
    case null
    then show ?thesis by (simp add: make_hash_key.simps A B)
  next
    case dec_dec
    obtain x y where x: "Json_wrapper_get_decimal_data lib a = Some x"
      and y: "Json_wrapper_get_decimal_data lib b = Some y"
      using ca cb dec_dec by blast
    have "dec_value x = dec_value y"
      using eq dec_dec x y dec_value_zero [of x] dec_value_zero [of y]
      by (auto simp: compare.simps [of lib a b] A B type_comparison_def my_decimal_is_zero_def
            my_decimal_cmp_zero_iff split: if_splits)
    then show ?thesis
      using dec_dec x y by (simp add: make_hash_key.simps A B decimal2double_def)
  next
    case dec_int
    obtain x where x: "Json_wrapper_get_decimal_data lib a = Some x" using ca dec_int by blast
    have "compare_json_decimal_int x (Json_wrapper_get_int b) = 0"
      using eq dec_int x by (simp add: compare.simps [of lib a b] A B type_comparison_def)
    then have "dec_value x = of_int (sint (Json_wrapper_get_int b))"
      by (rule compare_json_decimal_int_zero)
    then show ?thesis
      using dec_int x
      by (simp add: make_hash_key.simps A B decimal2double_def longlong2double_def)
  next
    case dec_uint
    obtain x where x: "Json_wrapper_get_decimal_data lib a = Some x" using ca dec_uint by blast
    have "compare_json_decimal_uint x (Json_wrapper_get_uint b) = 0"
      using eq dec_uint x by (simp add: compare.simps [of lib a b] A B type_comparison_def)
    then have "dec_value x = of_int (uint (Json_wrapper_get_uint b))"
      by (rule compare_json_decimal_uint_zero)
    then show ?thesis
      using dec_uint x
      by (simp add: make_hash_key.simps A B decimal2double_def ulonglong2double_def)
  next
    case dec_double
    obtain x where x: "Json_wrapper_get_decimal_data lib a = Some x" using ca dec_double by blast
    have okb: "double_ok (Json_wrapper_get_double b)" using db dec_double by simp
    have "compare_json_decimal_double lib x (Json_wrapper_get_double b) = 0"
      using eq dec_double x by (simp add: compare.simps [of lib a b] A B type_comparison_def)
    then have "double_equal (decimal2double x) (Json_wrapper_get_double b)"
      using okb rt dec_double
      by (intro compare_json_decimal_double_zero_equal)
        (simp_all add: double_ok_def round_trip_pair_def A B)
    then have "add_double seed (decimal2double x) = add_double seed (Json_wrapper_get_double b)"
      using okb by (intro add_double_cong ok)
    then show ?thesis using dec_double x by (simp add: make_hash_key.simps A B)
  next
    case int_dec
    obtain y where y: "Json_wrapper_get_decimal_data lib b = Some y" using cb int_dec by blast
    have "compare_json_decimal_int y (Json_wrapper_get_int a) = 0"
      using eq int_dec y by (simp add: compare.simps [of lib a b] A B type_comparison_def)
    then have "dec_value y = of_int (sint (Json_wrapper_get_int a))"
      by (rule compare_json_decimal_int_zero)
    then show ?thesis
      using int_dec y
      by (simp add: make_hash_key.simps A B decimal2double_def longlong2double_def)
  next
    case int_int
    have "sint (Json_wrapper_get_int a) = sint (Json_wrapper_get_int b)"
      using eq int_int
      by (simp add: compare.simps [of lib a b] A B type_comparison_def compare_numbers_zero_iff)
    then show ?thesis
      using int_int by (simp add: make_hash_key.simps A B longlong2double_def)
  next
    case int_uint
    have "compare_json_int_uint (Json_wrapper_get_int a) (Json_wrapper_get_uint b) = 0"
      using eq int_uint by (simp add: compare.simps [of lib a b] A B type_comparison_def)
    then have "sint (Json_wrapper_get_int a) = uint (Json_wrapper_get_uint b)"
      by (rule compare_json_int_uint_zero)
    then show ?thesis
      using int_uint
      by (simp add: make_hash_key.simps A B longlong2double_def ulonglong2double_def)
  next
    case int_double
    have okb: "double_ok (Json_wrapper_get_double b)" using db int_double by simp
    have "compare_json_double_int lib (Json_wrapper_get_double b) (Json_wrapper_get_int a) = 0"
      using eq int_double by (simp add: compare.simps [of lib a b] A B type_comparison_def)
    then have "double_equal (Json_wrapper_get_double b) (longlong2double (Json_wrapper_get_int a))"
      using okb by (intro compare_json_double_int_zero_equal) (simp_all add: double_ok_def)
    then have "add_double seed (Json_wrapper_get_double b)
        = add_double seed (longlong2double (Json_wrapper_get_int a))"
      using okb by (intro add_double_cong ok)
    then show ?thesis using int_double by (simp add: make_hash_key.simps A B)
  next
    case uint_dec
    obtain y where y: "Json_wrapper_get_decimal_data lib b = Some y" using cb uint_dec by blast
    have "compare_json_decimal_uint y (Json_wrapper_get_uint a) = 0"
      using eq uint_dec y by (simp add: compare.simps [of lib a b] A B type_comparison_def)
    then have "dec_value y = of_int (uint (Json_wrapper_get_uint a))"
      by (rule compare_json_decimal_uint_zero)
    then show ?thesis
      using uint_dec y
      by (simp add: make_hash_key.simps A B decimal2double_def ulonglong2double_def)
  next
    case uint_int
    have "compare_json_int_uint (Json_wrapper_get_int b) (Json_wrapper_get_uint a) = 0"
      using eq uint_int by (simp add: compare.simps [of lib a b] A B type_comparison_def)
    then have "sint (Json_wrapper_get_int b) = uint (Json_wrapper_get_uint a)"
      by (rule compare_json_int_uint_zero)
    then show ?thesis
      using uint_int
      by (simp add: make_hash_key.simps A B longlong2double_def ulonglong2double_def)
  next
    case uint_uint
    have "uint (Json_wrapper_get_uint a) = uint (Json_wrapper_get_uint b)"
      using eq uint_uint
      by (simp add: compare.simps [of lib a b] A B type_comparison_def compare_numbers_zero_iff)
    then show ?thesis
      using uint_uint by (simp add: make_hash_key.simps A B ulonglong2double_def)
  next
    case uint_double
    have okb: "double_ok (Json_wrapper_get_double b)" using db uint_double by simp
    have "compare_json_double_uint lib (Json_wrapper_get_double b) (Json_wrapper_get_uint a) = 0"
      using eq uint_double by (simp add: compare.simps [of lib a b] A B type_comparison_def)
    then have "double_equal (Json_wrapper_get_double b) (ulonglong2double (Json_wrapper_get_uint a))"
      using okb by (intro compare_json_double_uint_zero_equal) (simp_all add: double_ok_def)
    then have "add_double seed (Json_wrapper_get_double b)
        = add_double seed (ulonglong2double (Json_wrapper_get_uint a))"
      using okb by (intro add_double_cong ok)
    then show ?thesis using uint_double by (simp add: make_hash_key.simps A B)
  next
    case double_dec
    obtain y where y: "Json_wrapper_get_decimal_data lib b = Some y" using cb double_dec by blast
    have oka: "double_ok (Json_wrapper_get_double a)" using da double_dec by simp
    have "compare_json_decimal_double lib y (Json_wrapper_get_double a) = 0"
      using eq double_dec y by (simp add: compare.simps [of lib a b] A B type_comparison_def)
    then have "double_equal (decimal2double y) (Json_wrapper_get_double a)"
      using oka rt double_dec
      by (intro compare_json_decimal_double_zero_equal)
        (simp_all add: double_ok_def round_trip_pair_def A B)
    then have "add_double seed (decimal2double y) = add_double seed (Json_wrapper_get_double a)"
      using oka by (intro add_double_cong ok)
    then show ?thesis using double_dec y by (simp add: make_hash_key.simps A B)
  next
    case double_int
    have oka: "double_ok (Json_wrapper_get_double a)" using da double_int by simp
    have "compare_json_double_int lib (Json_wrapper_get_double a) (Json_wrapper_get_int b) = 0"
      using eq double_int by (simp add: compare.simps [of lib a b] A B type_comparison_def)
    then have "double_equal (Json_wrapper_get_double a) (longlong2double (Json_wrapper_get_int b))"
      using oka by (intro compare_json_double_int_zero_equal) (simp_all add: double_ok_def)
    then have "add_double seed (Json_wrapper_get_double a)
        = add_double seed (longlong2double (Json_wrapper_get_int b))"
      using oka by (intro add_double_cong ok)
    then show ?thesis using double_int by (simp add: make_hash_key.simps A B)
  next
    case double_uint
    have oka: "double_ok (Json_wrapper_get_double a)" using da double_uint by simp
    have "compare_json_double_uint lib (Json_wrapper_get_double a) (Json_wrapper_get_uint b) = 0"
      using eq double_uint by (simp add: compare.simps [of lib a b] A B type_comparison_def)
    then have "double_equal (Json_wrapper_get_double a) (ulonglong2double (Json_wrapper_get_uint b))"
      using oka by (intro compare_json_double_uint_zero_equal) (simp_all add: double_ok_def)
    then have "add_double seed (Json_wrapper_get_double a)
        = add_double seed (ulonglong2double (Json_wrapper_get_uint b))"
      using oka by (intro add_double_cong ok)
    then show ?thesis using double_uint by (simp add: make_hash_key.simps A B)
  next
    case double_double
    have oka: "double_ok (Json_wrapper_get_double a)" using da double_double by simp
    have okb: "double_ok (Json_wrapper_get_double b)" using db double_double by simp
    have "compare_numbers_double (Json_wrapper_get_double a) (Json_wrapper_get_double b) = 0"
      using eq double_double by (simp add: compare.simps [of lib a b] A B type_comparison_def)
    then have "double_equal (Json_wrapper_get_double a) (Json_wrapper_get_double b)"
      by (auto simp: compare_numbers_double_def split: if_splits)
    then have "add_double seed (Json_wrapper_get_double a)
        = add_double seed (Json_wrapper_get_double b)"
      using oka okb by (intro add_double_cong)
    then show ?thesis using double_double by (simp add: make_hash_key.simps A B)
  next
    case string
    have "compare_json_strings lib (Json_wrapper_get_data a) (length (Json_wrapper_get_data a))
        (Json_wrapper_get_data b) (length (Json_wrapper_get_data b)) = 0"
      using eq string
      by (simp add: compare.simps [of lib a b] A B type_comparison_def get_data_length)
    then have "Json_wrapper_get_data a = Json_wrapper_get_data b"
      by (rule compare_json_strings_zero)
    then show ?thesis
      using string by (simp add: make_hash_key.simps A B get_data_length)
  next
    case boolean
    have "Json_wrapper_get_boolean a = Json_wrapper_get_boolean b"
      using eq boolean
      by (simp add: compare.simps [of lib a b] A B type_comparison_def compare_numbers_zero_iff)
    then show ?thesis
      using boolean by (simp add: make_hash_key.simps A B)
  next
    case opaque
    have "compare_json_strings lib (Json_wrapper_get_data a) (length (Json_wrapper_get_data a))
        (Json_wrapper_get_data b) (length (Json_wrapper_get_data b)) = 0"
      using eq opaque
      by (simp add: compare.simps [of lib a b] A B type_comparison_def get_data_length
            Let_def split: if_splits)
    then have "Json_wrapper_get_data a = Json_wrapper_get_data b"
      by (rule compare_json_strings_zero)
    then show ?thesis
      using opaque by (simp add: make_hash_key.simps A B get_data_length)
  next
    case temporal
    have "sint (Json_wrapper_get_datetime a) = sint (Json_wrapper_get_datetime b)"
      using eq temporal
      by (auto simp: compare.simps [of lib a b] A B type_comparison_def compare_numbers_zero_iff
            split: if_splits)
    then have "Json_wrapper_get_datetime a = Json_wrapper_get_datetime b"
      by (rule signed_word_eqI)
    moreover have "Json_wrapper_get_datetime_packed a = int8store (Json_wrapper_get_datetime a)"
      using temporal(1) by (intro datetime_packed [OF wa]) (simp add: A)
    moreover have "Json_wrapper_get_datetime_packed b = int8store (Json_wrapper_get_datetime b)"
      using temporal(2) by (intro datetime_packed [OF wb]) (simp add: B)
    ultimately show ?thesis
      using temporal by (auto simp: make_hash_key.simps A B)
  qed
qed

text \<open>
  C9: two well-formed scalars with \<open>compare a b = 0\<close> get the same hash key from the same
  seed, whatever their kinds (for a DECIMAL against a DOUBLE, provided the double survives
  the round trip through \<^verbatim>\<open>double2decimal\<close>); and the doubles \<open>+0.0\<close> and \<open>-0.0\<close>
  hash alike.
\<close>

theorem hash_key_equal:
  assumes "well_formed lib a" and "well_formed lib b"
    and "Json_wrapper_type a \<noteq> J_ARRAY" and "Json_wrapper_type a \<noteq> J_OBJECT"
    and "Json_wrapper_type b \<noteq> J_ARRAY" and "Json_wrapper_type b \<noteq> J_OBJECT"
    and "round_trip_pair lib a b"
    and "compare lib a b = 0"
  shows "make_hash_key lib a seed = make_hash_key lib b seed
     \<and> make_hash_key lib (Json_wrapper_dom (Some (Json_double (Double False 0 0)))) seed
       = make_hash_key lib (Json_wrapper_dom (Some (Json_double (Double True 0 0)))) seed"
proof
  show "make_hash_key lib a seed = make_hash_key lib b seed"
    using assms by (intro hash_scalar)
  show "make_hash_key lib (Json_wrapper_dom (Some (Json_double (Double False 0 0)))) seed
       = make_hash_key lib (Json_wrapper_dom (Some (Json_double (Double True 0 0)))) seed"
    by (simp add: make_hash_key.simps Json_wrapper_type_def Json_wrapper_empty_def
          Json_wrapper_dom_def Json_wrapper_get_double_def add_double_def double_equal_def
          isnan_def double_units_def double_zero_def)
qed

text \<open>
  The theorem at the INT \<open>1\<close> and the DOUBLE \<open>1.0\<close>.
\<close>

theorem hash_key_equal_witness:
  "make_hash_key \<lparr>binary2my_decimal = (\<lambda>p s b. None), double2decimal = (\<lambda>d. (E_DEC_OK, My_decimal False 1 0)),
      memcmp_magnitude = (\<lambda>s t n. 0)\<rparr>
     (Json_wrapper_dom (Some (Json_int 1))) 0
   = make_hash_key \<lparr>binary2my_decimal = (\<lambda>p s b. None), double2decimal = (\<lambda>d. (E_DEC_OK, My_decimal False 1 0)),
      memcmp_magnitude = (\<lambda>s t n. 0)\<rparr>
     (Json_wrapper_dom (Some (Json_double (Double False 1023 0)))) 0"
  using hash_key_equal
    [of "\<lparr>binary2my_decimal = (\<lambda>p s b. None), double2decimal = (\<lambda>d. (E_DEC_OK, My_decimal False 1 0)),
      memcmp_magnitude = (\<lambda>s t n. 0)\<rparr>"
        "Json_wrapper_dom (Some (Json_int 1))"
        "Json_wrapper_dom (Some (Json_double (Double False 1023 0)))" 0]
  by (simp add: well_formed_def Json_wrapper_dom_def Json_wrapper_type_def Json_wrapper_empty_def
        round_trip_pair_def compare.simps type_comparison_def Json_wrapper_get_double_def
        Json_wrapper_get_int_def compare_json_double_int_def compare_json_decimal_double_def
        my_decimal_is_zero_def longlong2decimal_def my_decimal_cmp_def compare_numbers_def
        double_zero_def double_equal_def
        double_ok_def isnan_def dec_value_def double_units_def double_less_def
        longlong2double_def round_to_double_def shift2_def
        compute_bitlen binary_exponent_def round_half_even_def Let_def)

end
